theory Spec2Isabelle
  imports Complex_Main
begin

section \<open>MELD restraint transformer (meld/runner/transform/restraints/meld.py)\<close>

text \<open>
  A shallow embedding of \<^verbatim>\<open>meld.py\<close>. Python floats are modelled as \<open>real\<close>, Python
  integers as \<open>int\<close>, indices handed out by the engine as \<open>nat\<close>. Every function
  that mutates the tracker or the force object takes the state and returns it, together
  with either the raised error (\<open>Inl\<close>) or the returned value (\<open>Inr\<close>), so that the state
  left behind by a raise is part of the model.
\<close>

subsection \<open>Errors and control flow\<close>

datatype error =
    RuntimeError      \<comment> \<open>"Do not know how to handle restraint"\<close>
  | IndexError        \<comment> \<open>numpy index out of bounds\<close>
  | UnboundLocalError \<comment> \<open>a local variable read before any assignment\<close>
  | AttributeError    \<comment> \<open>\<open>self.force\<close> read before \<open>add_interactions\<close> set it\<close>
  | EngineError       \<comment> \<open>the engine rejects an index it never handed out\<close>

text \<open>\<open>for x in xs: body\<close>, where the body may raise: the loop stops at the first error.\<close>

fun for_loop :: "'a list \<Rightarrow> ('a \<Rightarrow> 's \<Rightarrow> (error + unit) \<times> 's) \<Rightarrow> 's \<Rightarrow> (error + unit) \<times> 's" where
  "for_loop [] body s = (Inr (), s)"
| "for_loop (x # xs) body s =
     (case body x s of
        (Inl e, s') \<Rightarrow> (Inl e, s')
      | (Inr _, s') \<Rightarrow> for_loop xs body s')"

text \<open>\<open>range(n)\<close> and \<open>range(a, n)\<close> for a non-negative start; empty when \<open>n\<close> is not above it.\<close>

definition py_range :: "int \<Rightarrow> nat list" where
  "py_range n = [0 ..< nat n]"

definition range_from :: "nat \<Rightarrow> int \<Rightarrow> nat list" where
  "range_from a n = [a ..< nat n]"

text \<open>Python's \<open>int(x)\<close> on a float truncates toward zero.\<close>

definition py_int :: "real \<Rightarrow> int" where
  "py_int x = (if 0 \<le> x then \<lfloor>x\<rfloor> else \<lceil>x\<rceil>)"

subsection \<open>numpy arrays\<close>

text \<open>
  Modelled from the spec: numpy is an external library. An array is its shape and its
  entries; indexing with in-range non-negative integers reads an entry, an index out of
  range raises IndexError (the source only indexes with loop counters and literals).
\<close>

record ndarray2 =
  nrows :: nat
  ncols :: nat
  at2 :: "nat \<Rightarrow> nat \<Rightarrow> real"

record ndarray3 =
  dim0 :: nat
  dim1 :: nat
  dim2 :: nat
  at3 :: "nat \<Rightarrow> nat \<Rightarrow> nat \<Rightarrow> real"

text \<open>\<open>a[i, j, k]\<close>\<close>

definition getitem3 :: "ndarray3 \<Rightarrow> nat \<Rightarrow> nat \<Rightarrow> nat \<Rightarrow> error + real" where
  "getitem3 a i j k =
     (if i < dim0 a \<and> j < dim1 a \<and> k < dim2 a then Inr (at3 a i j k) else Inl IndexError)"

text \<open>\<open>a[:, c]\<close>\<close>

definition column :: "ndarray2 \<Rightarrow> nat \<Rightarrow> error + real list" where
  "column a c =
     (if c < ncols a then Inr (map (\<lambda>i. at2 a i c) [0 ..< nrows a]) else Inl IndexError)"

text \<open>
  The column slices \<open>a[:, c]\<close> for the given \<open>c\<close>, evaluated left to right as the
  arguments of one call are: the first slice out of range raises.
\<close>

fun columns :: "ndarray2 \<Rightarrow> nat list \<Rightarrow> error + real list list" where
  "columns a [] = Inr []"
| "columns a (c # cs) =
     (case column a c of
        Inl e \<Rightarrow> Inl e
      | Inr v \<Rightarrow> (case columns a cs of Inl e \<Rightarrow> Inl e | Inr vs \<Rightarrow> Inr (v # vs)))"

text \<open>\<open>list(a.flatten())\<close>: row-major.\<close>

definition flatten :: "ndarray2 \<Rightarrow> real list" where
  "flatten a = concat (map (\<lambda>i. map (\<lambda>j. at2 a i j) [0 ..< ncols a]) [0 ..< nrows a])"

subsection \<open>\<open>_setup_precisions\<close>\<close>

text \<open>The first pair of loops: \<open>diags.append(precisions[i, j, j])\<close>.\<close>

definition diags_inner :: "ndarray3 \<Rightarrow> nat \<Rightarrow> nat \<Rightarrow> real list \<Rightarrow> (error + unit) \<times> real list" where
  "diags_inner precisions i j diags =
     (case getitem3 precisions i j j of
        Inl e \<Rightarrow> (Inl e, diags)
      | Inr v \<Rightarrow> (Inr (), diags @ [v]))"

definition diags_outer :: "ndarray3 \<Rightarrow> int \<Rightarrow> nat \<Rightarrow> real list \<Rightarrow> (error + unit) \<times> real list" where
  "diags_outer precisions n_distances i diags =
     for_loop (py_range n_distances) (diags_inner precisions i) diags"

text \<open>The second nest of loops: \<open>off_diags.append(precisions[i, j, k])\<close>.\<close>

definition off_diags_inner :: "ndarray3 \<Rightarrow> nat \<Rightarrow> nat \<Rightarrow> nat \<Rightarrow> real list \<Rightarrow> (error + unit) \<times> real list" where
  "off_diags_inner precisions i j k off_diags =
     (case getitem3 precisions i j k of
        Inl e \<Rightarrow> (Inl e, off_diags)
      | Inr v \<Rightarrow> (Inr (), off_diags @ [v]))"

definition off_diags_middle :: "ndarray3 \<Rightarrow> int \<Rightarrow> nat \<Rightarrow> nat \<Rightarrow> real list \<Rightarrow> (error + unit) \<times> real list" where
  "off_diags_middle precisions n_distances i j off_diags =
     for_loop (range_from (j + 1) n_distances) (off_diags_inner precisions i j) off_diags"

definition off_diags_outer :: "ndarray3 \<Rightarrow> int \<Rightarrow> nat \<Rightarrow> real list \<Rightarrow> (error + unit) \<times> real list" where
  "off_diags_outer precisions n_distances i off_diags =
     for_loop (py_range n_distances) (off_diags_middle precisions n_distances i) off_diags"

definition setup_precisions :: "ndarray3 \<Rightarrow> int \<Rightarrow> int \<Rightarrow> error + (real list \<times> real list)" where
  "setup_precisions precisions n_distances n_conditions =
     (case for_loop (py_range n_conditions) (diags_outer precisions n_distances) [] of
        (Inl e, _) \<Rightarrow> Inl e
      | (Inr _, diags) \<Rightarrow>
          (case for_loop (py_range n_conditions) (off_diags_outer precisions n_distances) [] of
             (Inl e, _) \<Rightarrow> Inl e
           | (Inr _, off_diags) \<Rightarrow> Inr (diags, off_diags)))"

text \<open>
  The decomposition in the specification's words: the diagonal entries, components
  outermost; the entries above the diagonal, components outermost, then the row
  \<open>j\<close>, then the column \<open>k > j\<close>.
\<close>

definition spec_diag :: "ndarray3 \<Rightarrow> nat \<Rightarrow> nat \<Rightarrow> real list" where
  "spec_diag p C D = concat (map (\<lambda>c. map (\<lambda>d. at3 p c d d) [0 ..< D]) [0 ..< C])"

definition spec_offdiag :: "ndarray3 \<Rightarrow> nat \<Rightarrow> nat \<Rightarrow> real list" where
  "spec_offdiag p C D =
     concat (map (\<lambda>c. concat (map (\<lambda>j. map (\<lambda>k. at3 p c j k) [Suc j ..< D]) [0 ..< D])) [0 ..< C])"

subsection \<open>Sampled parameters and the simulation state\<close>

text \<open>
  Modelled from the spec: \<open>param_sampling.Parameter\<close>, \<open>ParameterManager\<close> and the
  state's \<open>parameters\<close> are declared outside this module. By sections 4.3 and 6 a
  \<open>num_active\<close> is a literal integer or a sampled-parameter reference, the state
  exposes its parameters, and \<open>extract_value(reference, parameters)\<close> returns a number;
  what it computes is left open, as a field of the manager given to the transformer.
\<close>

datatype parameter = Parameter nat

datatype num_active = Literal int | Sampled parameter

record istate =
  parameters :: "real list"

record param_manager =
  extract_value :: "parameter \<Rightarrow> real list \<Rightarrow> real"

text \<open>\<open>MeldRestraintTransformer._handle_num_active\<close>\<close>

fun handle_num_active :: "param_manager \<Rightarrow> num_active \<Rightarrow> istate \<Rightarrow> int" where
  "handle_num_active pm (Sampled v) state = py_int (extract_value pm v (parameters state))"
| "handle_num_active pm (Literal n) state = n"

subsection \<open>The engine: \<open>meldplugin.MeldForce\<close>\<close>

text \<open>
  Values passed to the engine. A call is the name of the engine function and its positional arguments, in
  the order the source writes them.
\<close>

datatype pyval =
    VInt int
  | VFloat real
  | VIntList "int list"
  | VFloatList "real list"
  | VObj nat   \<comment> \<open>an opaque object, such as a simulation context\<close>

datatype kind = Distance | HyperbolicDistance | Torsion | DistProfile | TorsProfile | GMM

datatype engine_method =
    Add kind | Modify kind
  | AddGroup | AddCollection
  | ModifyGroupNumActive | ModifyCollectionNumActive
  | UpdateParametersInContext

datatype call = Call engine_method "pyval list"

text \<open>
  Modelled from the spec: \<open>MeldForce\<close> is an external library; only its calls appear in
  the source. Following section 6 of the specification, the force object offers per
  restraint kind a creation call that returns an index and an update call addressed by
  index, the same for groups and collections, and a call that recomputes the state of a
  context. Following section 8, the i-th restraint registered receives index i. The
  model keeps the parameters last pushed for every restraint (by kind, in creation
  order), the members and count of every group and collection, and the log of every call
  received. The update call of a kind addresses the restraints of that kind by their
  position in creation order, which is how the source enumerates its tracker; the
  indices listed in a group are the ones the creation calls returned. An update
  addressed at a position the engine does not hold is logged and rejected.
\<close>

record meld_force =
  stored :: "kind \<Rightarrow> pyval list list"
  n_restraints :: nat
  groups_f :: "(nat list \<times> int) list"
  collections_f :: "(nat list \<times> int) list"
  calls :: "call list"

definition MeldForce :: meld_force where
  "MeldForce = \<lparr>stored = (\<lambda>_. []), n_restraints = 0, groups_f = [], collections_f = [], calls = []\<rparr>"

definition add_restraint :: "kind \<Rightarrow> pyval list \<Rightarrow> meld_force \<Rightarrow> nat \<times> meld_force" where
  "add_restraint K args f =
     (n_restraints f,
      f\<lparr>stored := (stored f)(K := stored f K @ [args]),
        n_restraints := Suc (n_restraints f),
        calls := calls f @ [Call (Add K) args]\<rparr>)"

definition modify_restraint :: "kind \<Rightarrow> nat \<Rightarrow> pyval list \<Rightarrow> meld_force \<Rightarrow> (error + unit) \<times> meld_force" where
  "modify_restraint K i args f =
     (if i < length (stored f K)
      then (Inr (), f\<lparr>stored := (stored f)(K := (stored f K)[i := args]),
                      calls := calls f @ [Call (Modify K) (VInt (int i) # args)]\<rparr>)
      else (Inl EngineError, f\<lparr>calls := calls f @ [Call (Modify K) (VInt (int i) # args)]\<rparr>))"

definition addDistanceRestraint ::
  "int \<Rightarrow> int \<Rightarrow> real \<Rightarrow> real \<Rightarrow> real \<Rightarrow> real \<Rightarrow> real \<Rightarrow> meld_force \<Rightarrow> nat \<times> meld_force" where
  "addDistanceRestraint a1 a2 r1 r2 r3 r4 k =
     add_restraint Distance [VInt a1, VInt a2, VFloat r1, VFloat r2, VFloat r3, VFloat r4, VFloat k]"

definition modifyDistanceRestraint ::
  "nat \<Rightarrow> int \<Rightarrow> int \<Rightarrow> real \<Rightarrow> real \<Rightarrow> real \<Rightarrow> real \<Rightarrow> real \<Rightarrow> meld_force \<Rightarrow> (error + unit) \<times> meld_force" where
  "modifyDistanceRestraint i a1 a2 r1 r2 r3 r4 k =
     modify_restraint Distance i [VInt a1, VInt a2, VFloat r1, VFloat r2, VFloat r3, VFloat r4, VFloat k]"

definition addHyperbolicDistanceRestraint ::
  "int \<Rightarrow> int \<Rightarrow> real \<Rightarrow> real \<Rightarrow> real \<Rightarrow> real \<Rightarrow> real \<Rightarrow> real \<Rightarrow> meld_force \<Rightarrow> nat \<times> meld_force" where
  "addHyperbolicDistanceRestraint a1 a2 r1 r2 r3 r4 k asymptote =
     add_restraint HyperbolicDistance
       [VInt a1, VInt a2, VFloat r1, VFloat r2, VFloat r3, VFloat r4, VFloat k, VFloat asymptote]"

definition modifyHyperbolicDistanceRestraint ::
  "nat \<Rightarrow> int \<Rightarrow> int \<Rightarrow> real \<Rightarrow> real \<Rightarrow> real \<Rightarrow> real \<Rightarrow> real \<Rightarrow> real \<Rightarrow> meld_force
     \<Rightarrow> (error + unit) \<times> meld_force" where
  "modifyHyperbolicDistanceRestraint i a1 a2 r1 r2 r3 r4 k asymptote =
     modify_restraint HyperbolicDistance i
       [VInt a1, VInt a2, VFloat r1, VFloat r2, VFloat r3, VFloat r4, VFloat k, VFloat asymptote]"

definition addTorsionRestraint ::
  "int \<Rightarrow> int \<Rightarrow> int \<Rightarrow> int \<Rightarrow> real \<Rightarrow> real \<Rightarrow> real \<Rightarrow> meld_force \<Rightarrow> nat \<times> meld_force" where
  "addTorsionRestraint a1 a2 a3 a4 phi delta_phi k =
     add_restraint Torsion [VInt a1, VInt a2, VInt a3, VInt a4, VFloat phi, VFloat delta_phi, VFloat k]"

definition modifyTorsionRestraint ::
  "nat \<Rightarrow> int \<Rightarrow> int \<Rightarrow> int \<Rightarrow> int \<Rightarrow> real \<Rightarrow> real \<Rightarrow> real \<Rightarrow> meld_force \<Rightarrow> (error + unit) \<times> meld_force" where
  "modifyTorsionRestraint i a1 a2 a3 a4 phi delta_phi k =
     modify_restraint Torsion i [VInt a1, VInt a2, VInt a3, VInt a4, VFloat phi, VFloat delta_phi, VFloat k]"

text \<open>
  The profile calls take one sequence per spline-coefficient column, four for the
  distance profile and sixteen for the torsion profile; the columns are passed here as
  the list of those sequences, in argument order.
\<close>

definition addDistProfileRestraint ::
  "int \<Rightarrow> int \<Rightarrow> real \<Rightarrow> real \<Rightarrow> int \<Rightarrow> real list list \<Rightarrow> real \<Rightarrow> meld_force \<Rightarrow> nat \<times> meld_force" where
  "addDistProfileRestraint a1 a2 r_min r_max n_bins cols scale_factor =
     add_restraint DistProfile
       ([VInt a1, VInt a2, VFloat r_min, VFloat r_max, VInt n_bins] @ map VFloatList cols
          @ [VFloat scale_factor])"

definition modifyDistProfileRestraint ::
  "nat \<Rightarrow> int \<Rightarrow> int \<Rightarrow> real \<Rightarrow> real \<Rightarrow> int \<Rightarrow> real list list \<Rightarrow> real \<Rightarrow> meld_force
     \<Rightarrow> (error + unit) \<times> meld_force" where
  "modifyDistProfileRestraint i a1 a2 r_min r_max n_bins cols scale_factor =
     modify_restraint DistProfile i
       ([VInt a1, VInt a2, VFloat r_min, VFloat r_max, VInt n_bins] @ map VFloatList cols
          @ [VFloat scale_factor])"

definition addTorsProfileRestraint ::
  "int \<Rightarrow> int \<Rightarrow> int \<Rightarrow> int \<Rightarrow> int \<Rightarrow> int \<Rightarrow> int \<Rightarrow> int \<Rightarrow> int \<Rightarrow> real list list \<Rightarrow> real
     \<Rightarrow> meld_force \<Rightarrow> nat \<times> meld_force" where
  "addTorsProfileRestraint a1 a2 a3 a4 a5 a6 a7 a8 n_bins cols scale_factor =
     add_restraint TorsProfile
       ([VInt a1, VInt a2, VInt a3, VInt a4, VInt a5, VInt a6, VInt a7, VInt a8, VInt n_bins]
          @ map VFloatList cols @ [VFloat scale_factor])"

definition modifyTorsProfileRestraint ::
  "nat \<Rightarrow> int \<Rightarrow> int \<Rightarrow> int \<Rightarrow> int \<Rightarrow> int \<Rightarrow> int \<Rightarrow> int \<Rightarrow> int \<Rightarrow> int \<Rightarrow> real list list \<Rightarrow> real
     \<Rightarrow> meld_force \<Rightarrow> (error + unit) \<times> meld_force" where
  "modifyTorsProfileRestraint i a1 a2 a3 a4 a5 a6 a7 a8 n_bins cols scale_factor =
     modify_restraint TorsProfile i
       ([VInt a1, VInt a2, VInt a3, VInt a4, VInt a5, VInt a6, VInt a7, VInt a8, VInt n_bins]
          @ map VFloatList cols @ [VFloat scale_factor])"

definition addGMMRestraint ::
  "int \<Rightarrow> int \<Rightarrow> real \<Rightarrow> int list \<Rightarrow> real list \<Rightarrow> real list \<Rightarrow> real list \<Rightarrow> real list
     \<Rightarrow> meld_force \<Rightarrow> nat \<times> meld_force" where
  "addGMMRestraint nd nc scale atoms w m d o' =
     add_restraint GMM
       [VInt nd, VInt nc, VFloat scale, VIntList atoms, VFloatList w, VFloatList m,
        VFloatList d, VFloatList o']"

definition modifyGMMRestraint ::
  "nat \<Rightarrow> int \<Rightarrow> int \<Rightarrow> real \<Rightarrow> int list \<Rightarrow> real list \<Rightarrow> real list \<Rightarrow> real list \<Rightarrow> real list
     \<Rightarrow> meld_force \<Rightarrow> (error + unit) \<times> meld_force" where
  "modifyGMMRestraint i nd nc scale atoms w m d o' =
     modify_restraint GMM i
       [VInt nd, VInt nc, VFloat scale, VIntList atoms, VFloatList w, VFloatList m,
        VFloatList d, VFloatList o']"

definition addGroup :: "nat list \<Rightarrow> int \<Rightarrow> meld_force \<Rightarrow> nat \<times> meld_force" where
  "addGroup restraint_indices num_active f =
     (length (groups_f f),
      f\<lparr>groups_f := groups_f f @ [(restraint_indices, num_active)],
        calls := calls f @ [Call AddGroup [VIntList (map int restraint_indices), VInt num_active]]\<rparr>)"

definition addCollection :: "nat list \<Rightarrow> int \<Rightarrow> meld_force \<Rightarrow> nat \<times> meld_force" where
  "addCollection group_indices num_active f =
     (length (collections_f f),
      f\<lparr>collections_f := collections_f f @ [(group_indices, num_active)],
        calls := calls f @ [Call AddCollection [VIntList (map int group_indices), VInt num_active]]\<rparr>)"

definition modifyGroupNumActive :: "nat \<Rightarrow> int \<Rightarrow> meld_force \<Rightarrow> (error + unit) \<times> meld_force" where
  "modifyGroupNumActive i num_active f =
     (if i < length (groups_f f)
      then (Inr (), f\<lparr>groups_f := (groups_f f)[i := (fst (groups_f f ! i), num_active)],
                      calls := calls f @ [Call ModifyGroupNumActive [VInt (int i), VInt num_active]]\<rparr>)
      else (Inl EngineError,
            f\<lparr>calls := calls f @ [Call ModifyGroupNumActive [VInt (int i), VInt num_active]]\<rparr>))"

definition modifyCollectionNumActive :: "nat \<Rightarrow> int \<Rightarrow> meld_force \<Rightarrow> (error + unit) \<times> meld_force" where
  "modifyCollectionNumActive i num_active f =
     (if i < length (collections_f f)
      then (Inr (), f\<lparr>collections_f := (collections_f f)[i := (fst (collections_f f ! i), num_active)],
                      calls := calls f @ [Call ModifyCollectionNumActive [VInt (int i), VInt num_active]]\<rparr>)
      else (Inl EngineError,
            f\<lparr>calls := calls f @ [Call ModifyCollectionNumActive [VInt (int i), VInt num_active]]\<rparr>))"

definition updateParametersInContext :: "nat \<Rightarrow> meld_force \<Rightarrow> meld_force" where
  "updateParametersInContext ctx f = f\<lparr>calls := calls f @ [Call UpdateParametersInContext [VObj ctx]]\<rparr>"

subsection \<open>Restraints, groups and collections\<close>

text \<open>
  Modelled from the spec: the restraint classes of \<open>meld.system.restraints\<close> are
  declared outside this module; they are given here with the fields this module reads
  (section 3 of the specification). \<open>scaler\<close> is called with alpha, \<open>ramp\<close> with the
  timestep; the bounds \<open>r1\<close> to \<open>r4\<close> of a distance restraint are called with alpha,
  those of a hyperbolic distance restraint are plain numbers.
\<close>

record distance_restraint =
  dist_scaler :: "real \<Rightarrow> real"
  dist_ramp :: "int \<Rightarrow> real"
  dist_atom_index_1 :: int
  dist_atom_index_2 :: int
  dist_r1 :: "real \<Rightarrow> real"
  dist_r2 :: "real \<Rightarrow> real"
  dist_r3 :: "real \<Rightarrow> real"
  dist_r4 :: "real \<Rightarrow> real"
  dist_k :: real

record hyperbolic_distance_restraint =
  hyper_scaler :: "real \<Rightarrow> real"
  hyper_ramp :: "int \<Rightarrow> real"
  hyper_atom_index_1 :: int
  hyper_atom_index_2 :: int
  hyper_r1 :: real
  hyper_r2 :: real
  hyper_r3 :: real
  hyper_r4 :: real
  hyper_k :: real
  hyper_asymptote :: real

record torsion_restraint =
  tors_scaler :: "real \<Rightarrow> real"
  tors_ramp :: "int \<Rightarrow> real"
  tors_atom_index_1 :: int
  tors_atom_index_2 :: int
  tors_atom_index_3 :: int
  tors_atom_index_4 :: int
  tors_phi :: real
  tors_delta_phi :: real
  tors_k :: real

record dist_profile_restraint =
  dist_prof_scaler :: "real \<Rightarrow> real"
  dist_prof_ramp :: "int \<Rightarrow> real"
  dist_prof_atom_index_1 :: int
  dist_prof_atom_index_2 :: int
  dist_prof_r_min :: real
  dist_prof_r_max :: real
  dist_prof_n_bins :: int
  dist_prof_spline_params :: ndarray2
  dist_prof_scale_factor :: real

record tors_profile_restraint =
  tors_prof_scaler :: "real \<Rightarrow> real"
  tors_prof_ramp :: "int \<Rightarrow> real"
  tors_prof_atom_index_1 :: int
  tors_prof_atom_index_2 :: int
  tors_prof_atom_index_3 :: int
  tors_prof_atom_index_4 :: int
  tors_prof_atom_index_5 :: int
  tors_prof_atom_index_6 :: int
  tors_prof_atom_index_7 :: int
  tors_prof_atom_index_8 :: int
  tors_prof_n_bins :: int
  tors_prof_spline_params :: ndarray2
  tors_prof_scale_factor :: real

record gmm_distance_restraint =
  gmm_scaler :: "real \<Rightarrow> real"
  gmm_ramp :: "int \<Rightarrow> real"
  gmm_n_distances :: int
  gmm_n_components :: int
  gmm_atoms :: "int list"
  gmm_weights :: "real list"
  gmm_means :: ndarray2
  gmm_precisions :: ndarray3

text \<open>A selectable restraint of a class this module has no branch for.\<close>

record other_restraint =
  other_scaler :: "real \<Rightarrow> real"
  other_ramp :: "int \<Rightarrow> real"

text \<open>A \<open>SelectableRestraint\<close>; the constructor is what \<open>isinstance\<close> tests.\<close>

datatype restraint =
    DistanceRestraint distance_restraint
  | HyperbolicDistanceRestraint hyperbolic_distance_restraint
  | TorsionRestraint torsion_restraint
  | DistProfileRestraint dist_profile_restraint
  | TorsProfileRestraint tors_profile_restraint
  | GMMDistanceRestraint gmm_distance_restraint
  | OtherRestraint other_restraint

text \<open>\<open>rest.scaler\<close> and \<open>rest.ramp\<close>\<close>

fun scaler :: "restraint \<Rightarrow> real \<Rightarrow> real" where
  "scaler (DistanceRestraint r) = dist_scaler r"
| "scaler (HyperbolicDistanceRestraint r) = hyper_scaler r"
| "scaler (TorsionRestraint r) = tors_scaler r"
| "scaler (DistProfileRestraint r) = dist_prof_scaler r"
| "scaler (TorsProfileRestraint r) = tors_prof_scaler r"
| "scaler (GMMDistanceRestraint r) = gmm_scaler r"
| "scaler (OtherRestraint r) = other_scaler r"

fun ramp :: "restraint \<Rightarrow> int \<Rightarrow> real" where
  "ramp (DistanceRestraint r) = dist_ramp r"
| "ramp (HyperbolicDistanceRestraint r) = hyper_ramp r"
| "ramp (TorsionRestraint r) = tors_ramp r"
| "ramp (DistProfileRestraint r) = dist_prof_ramp r"
| "ramp (TorsProfileRestraint r) = tors_prof_ramp r"
| "ramp (GMMDistanceRestraint r) = gmm_ramp r"
| "ramp (OtherRestraint r) = other_ramp r"

text \<open>A restraint of the always-active input: selectable, or of some other class.\<close>

datatype any_restraint = Selectable restraint | NonSelectable nat

record restraint_group =
  group_restraints :: "restraint list"
  group_num_active :: num_active

record selectively_active_collection =
  coll_groups :: "restraint_group list"
  coll_num_active :: num_active

subsection \<open>\<open>_RestraintTracker\<close>\<close>

record restraint_tracker =
  distance_restraints :: "distance_restraint list"
  hyperbolic_distance_restraints :: "hyperbolic_distance_restraint list"
  torsion_restraints :: "torsion_restraint list"
  dist_prof_restraints :: "dist_profile_restraint list"
  torsion_profile_restraints :: "tors_profile_restraint list"
  gmm_restraints :: "gmm_distance_restraint list"
  groups :: "restraint_group option list"
  collections :: "selectively_active_collection option list"

definition RestraintTracker :: restraint_tracker where
  "RestraintTracker =
     \<lparr>distance_restraints = [], hyperbolic_distance_restraints = [], torsion_restraints = [],
      dist_prof_restraints = [], torsion_profile_restraints = [], gmm_restraints = [],
      groups = [], collections = []\<rparr>"

subsection \<open>\<open>_add_meld_restraint\<close>\<close>

definition add_meld_restraint ::
  "restraint \<Rightarrow> real \<Rightarrow> int \<Rightarrow> restraint_tracker \<times> meld_force
     \<Rightarrow> (error + nat) \<times> restraint_tracker \<times> meld_force" where
  "add_meld_restraint rest alpha timestep = (\<lambda>(tracker, meld_force).
     let scale = scaler rest alpha * ramp rest timestep in
     case rest of
       DistanceRestraint r \<Rightarrow>
         (let (rest_index, meld_force') =
                addDistanceRestraint
                  (dist_atom_index_1 r)
                  (dist_atom_index_2 r)
                  (dist_r1 r alpha)
                  (dist_r2 r alpha)
                  (dist_r3 r alpha)
                  (dist_r4 r alpha)
                  (dist_k r * scale) meld_force
          in (Inr rest_index,
              tracker\<lparr>distance_restraints := distance_restraints tracker @ [r]\<rparr>, meld_force'))
     | HyperbolicDistanceRestraint r \<Rightarrow>
         (let (rest_index, meld_force') =
                addHyperbolicDistanceRestraint
                  (hyper_atom_index_1 r)
                  (hyper_atom_index_2 r)
                  (hyper_r1 r)
                  (hyper_r2 r)
                  (hyper_r3 r)
                  (hyper_r4 r)
                  (hyper_k r * scale)
                  (hyper_asymptote r * scale) meld_force
          in (Inr rest_index,
              tracker\<lparr>hyperbolic_distance_restraints := hyperbolic_distance_restraints tracker @ [r]\<rparr>,
              meld_force'))
     | TorsionRestraint r \<Rightarrow>
         (let (rest_index, meld_force') =
                addTorsionRestraint
                  (tors_atom_index_1 r)
                  (tors_atom_index_2 r)
                  (tors_atom_index_3 r)
                  (tors_atom_index_4 r)
                  (tors_phi r)
                  (tors_delta_phi r)
                  (tors_k r * scale) meld_force
          in (Inr rest_index,
              tracker\<lparr>torsion_restraints := torsion_restraints tracker @ [r]\<rparr>, meld_force'))
     | DistProfileRestraint r \<Rightarrow>
         (case columns (dist_prof_spline_params r) [0, 1, 2, 3] of
            Inl e \<Rightarrow> (Inl e, tracker, meld_force)
          | Inr cols \<Rightarrow>
              (let (rest_index, meld_force') =
                     addDistProfileRestraint
                       (dist_prof_atom_index_1 r)
                       (dist_prof_atom_index_2 r)
                       (dist_prof_r_min r)
                       (dist_prof_r_max r)
                       (dist_prof_n_bins r)
                       cols
                       (dist_prof_scale_factor r * scale) meld_force
               in (Inr rest_index,
                   tracker\<lparr>dist_prof_restraints := dist_prof_restraints tracker @ [r]\<rparr>,
                   meld_force')))
     | TorsProfileRestraint r \<Rightarrow>
         (case columns (tors_prof_spline_params r)
                 [0, 1, 2, 3, 4, 5, 6, 7, 8, 9, 10, 11, 12, 13, 14, 15] of
            Inl e \<Rightarrow> (Inl e, tracker, meld_force)
          | Inr cols \<Rightarrow>
              (let (rest_index, meld_force') =
                     addTorsProfileRestraint
                       (tors_prof_atom_index_1 r)
                       (tors_prof_atom_index_2 r)
                       (tors_prof_atom_index_3 r)
                       (tors_prof_atom_index_4 r)
                       (tors_prof_atom_index_5 r)
                       (tors_prof_atom_index_6 r)
                       (tors_prof_atom_index_7 r)
                       (tors_prof_atom_index_8 r)
                       (tors_prof_n_bins r)
                       cols
                       (tors_prof_scale_factor r * scale) meld_force
               in (Inr rest_index,
                   tracker\<lparr>torsion_profile_restraints := torsion_profile_restraints tracker @ [r]\<rparr>,
                   meld_force')))
     | GMMDistanceRestraint r \<Rightarrow>
         (let nd = gmm_n_distances r;
              nc = gmm_n_components r;
              w = gmm_weights r;
              m = flatten (gmm_means r)
          in case setup_precisions (gmm_precisions r) nd nc of
               Inl e \<Rightarrow> (Inl e, tracker, meld_force)
             | Inr (d, o') \<Rightarrow>
                 (let (rest_index, meld_force') =
                        addGMMRestraint nd nc scale (gmm_atoms r) w m d o' meld_force
                  in (Inr rest_index,
                      tracker\<lparr>gmm_restraints := gmm_restraints tracker @ [r]\<rparr>, meld_force')))
     | OtherRestraint r \<Rightarrow> (Inl RuntimeError, tracker, meld_force))"

subsection \<open>\<open>MeldRestraintTransformer\<close>\<close>

text \<open>
  \<open>self.force\<close> does not exist until \<open>add_interactions\<close> sets it: reading it before
  raises AttributeError.
\<close>

record transformer =
  param_manager :: param_manager
  tracker :: restraint_tracker
  always_on :: "restraint list"
  selective_on :: "selectively_active_collection list"
  active :: bool
  force :: "meld_force option"

text \<open>
  Modelled from the spec: \<open>_delete_from_always_active\<close> (in \<open>restraints/util.py\<close>) is
  not part of this module; by section 4.5 the constructor removes from the caller's
  list what it claims.
\<close>

definition delete_from_always_active :: "restraint list \<Rightarrow> any_restraint list \<Rightarrow> any_restraint list" where
  "delete_from_always_active claimed always_active = foldl (\<lambda>xs r. remove1 (Selectable r) xs) always_active claimed"

text \<open>
  \<open>__init__\<close>: returns the transformer and what is left of the two lists of the
  caller. The run options are not read.
\<close>

definition MeldRestraintTransformer ::
  "param_manager \<Rightarrow> unit \<Rightarrow> any_restraint list \<Rightarrow> selectively_active_collection list
     \<Rightarrow> transformer \<times> any_restraint list \<times> selectively_active_collection list" where
  "MeldRestraintTransformer pm options always_active_restraints selectively_active_restraints =
     (let always_on' = concat (map (\<lambda>r. case r of Selectable s \<Rightarrow> [s] | NonSelectable _ \<Rightarrow> [])
                                 always_active_restraints);
          always_active' = delete_from_always_active always_on' always_active_restraints;
          selective_on' = selectively_active_restraints;
          selectively_active' = foldl (\<lambda>xs r. remove1 r xs) selectively_active_restraints selective_on'
      in (\<lparr>param_manager = pm,
           tracker = RestraintTracker,
           always_on = always_on',
           selective_on = selective_on',
           active = (always_on' \<noteq> [] \<or> selective_on' \<noteq> []),
           force = None\<rparr>,
          always_active', selectively_active'))"

text \<open>
  Modelled from the spec: the system of the physics engine (OpenMM) is external. It
  holds references to its forces, and \<open>addForce\<close> appends one; the content of the MELD
  force lives in the transformer's \<open>force\<close>.
\<close>

datatype force_ref = MeldForceRef | OtherForce nat

type_synonym system = "force_ref list"

text \<open>The loop over \<open>self.always_on\<close>; the state is the tracker, the force and \<open>group_list\<close>.\<close>

definition always_on_body ::
  "restraint \<Rightarrow> restraint_tracker \<times> meld_force \<times> nat list
     \<Rightarrow> (error + unit) \<times> restraint_tracker \<times> meld_force \<times> nat list" where
  "always_on_body rest = (\<lambda>(tracker, meld_force, group_list).
     case add_meld_restraint rest 0 0 (tracker, meld_force) of
       (Inl e, tracker', meld_force') \<Rightarrow> (Inl e, tracker', meld_force', group_list)
     | (Inr rest_index, tracker', meld_force') \<Rightarrow>
         (let (group_index, meld_force'') = addGroup [rest_index] 1 meld_force'
          in (Inr (), tracker'\<lparr>groups := groups tracker' @ [None]\<rparr>, meld_force'',
              group_list @ [group_index])))"

text \<open>The loop over \<open>group.restraints\<close>; the state adds \<open>restraint_indices\<close>.\<close>

definition group_restraints_body ::
  "restraint \<Rightarrow> restraint_tracker \<times> meld_force \<times> nat list
     \<Rightarrow> (error + unit) \<times> restraint_tracker \<times> meld_force \<times> nat list" where
  "group_restraints_body rest = (\<lambda>(tracker, meld_force, restraint_indices).
     case add_meld_restraint rest 0 0 (tracker, meld_force) of
       (Inl e, tracker', meld_force') \<Rightarrow> (Inl e, tracker', meld_force', restraint_indices)
     | (Inr rest_index, tracker', meld_force') \<Rightarrow>
         (Inr (), tracker', meld_force', restraint_indices @ [rest_index]))"

text \<open>
  The loop over \<open>coll.groups\<close>; the state adds \<open>group_indices\<close> and the loop variable
  \<open>group\<close> (here \<open>grp\<close>), which Python leaves bound to the last group after the loop.
\<close>

definition coll_groups_body ::
  "param_manager \<Rightarrow> istate \<Rightarrow> restraint_group
     \<Rightarrow> restraint_tracker \<times> meld_force \<times> nat list \<times> restraint_group option
     \<Rightarrow> (error + unit) \<times> restraint_tracker \<times> meld_force \<times> nat list \<times> restraint_group option" where
  "coll_groups_body pm state grp = (\<lambda>(tracker, meld_force, group_indices, _).
     case for_loop (group_restraints grp) group_restraints_body (tracker, meld_force, []) of
       (Inl e, tracker', meld_force', _) \<Rightarrow> (Inl e, tracker', meld_force', group_indices, Some grp)
     | (Inr _, tracker', meld_force', restraint_indices) \<Rightarrow>
         (let group_num_active' = handle_num_active pm (group_num_active grp) state;
              (group_index, meld_force'') = addGroup restraint_indices group_num_active' meld_force'
          in (Inr (), tracker'\<lparr>groups := groups tracker' @ [Some grp]\<rparr>, meld_force'',
              group_indices @ [group_index], Some grp)))"

text \<open>
  The loop over \<open>self.selective_on\<close>. The count of the collection is resolved from
  the variable \<open>group\<close>, as the source writes it.
\<close>

definition selective_on_body ::
  "param_manager \<Rightarrow> istate \<Rightarrow> selectively_active_collection
     \<Rightarrow> restraint_tracker \<times> meld_force \<times> restraint_group option
     \<Rightarrow> (error + unit) \<times> restraint_tracker \<times> meld_force \<times> restraint_group option" where
  "selective_on_body pm state coll = (\<lambda>(tracker, meld_force, group_var).
     case for_loop (coll_groups coll) (coll_groups_body pm state) (tracker, meld_force, [], group_var) of
       (Inl e, tracker', meld_force', _, group_var') \<Rightarrow> (Inl e, tracker', meld_force', group_var')
     | (Inr _, tracker', meld_force', group_indices, group_var') \<Rightarrow>
         (case group_var' of
            None \<Rightarrow> (Inl UnboundLocalError, tracker', meld_force', group_var')
          | Some grp \<Rightarrow>
              (let coll_num_active = handle_num_active pm (group_num_active grp) state;
                   (_, meld_force'') = addCollection group_indices coll_num_active meld_force'
               in (Inr (), tracker'\<lparr>collections := collections tracker' @ [Some coll]\<rparr>,
                   meld_force'', group_var'))))"

text \<open>The block under \<open>if self.always_on\<close>.\<close>

definition add_always_on ::
  "restraint list \<Rightarrow> restraint_tracker \<times> meld_force \<Rightarrow> (error + unit) \<times> restraint_tracker \<times> meld_force" where
  "add_always_on always = (\<lambda>(tracker, meld_force).
     if always \<noteq> [] then
       (case for_loop always always_on_body (tracker, meld_force, []) of
          (Inl e, tracker', meld_force', _) \<Rightarrow> (Inl e, tracker', meld_force')
        | (Inr _, tracker', meld_force', group_list) \<Rightarrow>
            (let (_, meld_force'') = addCollection group_list (int (length group_list)) meld_force'
             in (Inr (), tracker'\<lparr>collections := collections tracker' @ [None]\<rparr>, meld_force'')))
     else (Inr (), tracker, meld_force))"

text \<open>
  \<open>add_interactions\<close>: the tracker is mutated in place, so a raise leaves it as far as
  it got; the force is attached to the system and to \<open>self\<close> only at the end. The
  topology is not read.
\<close>

definition add_interactions ::
  "transformer \<Rightarrow> istate \<Rightarrow> system \<Rightarrow> unit \<Rightarrow> (error + system) \<times> transformer" where
  "add_interactions self state system topology =
     (if active self then
        (let meld_force = MeldForce in
         case add_always_on (always_on self) (tracker self, meld_force) of
           (Inl e, tracker', _) \<Rightarrow> (Inl e, self\<lparr>tracker := tracker'\<rparr>)
         | (Inr _, tracker', meld_force') \<Rightarrow>
             (case for_loop (selective_on self) (selective_on_body (param_manager self) state)
                     (tracker', meld_force', None) of
                (Inl e, tracker'', _, _) \<Rightarrow> (Inl e, self\<lparr>tracker := tracker''\<rparr>)
              | (Inr _, tracker'', meld_force'', _) \<Rightarrow>
                  (Inr (system @ [MeldForceRef]),
                   self\<lparr>tracker := tracker'', force := Some meld_force''\<rparr>)))
      else (Inr system, self))"

subsection \<open>The per-step update\<close>

text \<open>
  A call \<open>self.force.f(...)\<close>: reading \<open>self.force\<close> raises when it was never set.
\<close>

definition with_force ::
  "(meld_force \<Rightarrow> (error + unit) \<times> meld_force) \<Rightarrow> meld_force option
     \<Rightarrow> (error + unit) \<times> meld_force option" where
  "with_force m fo =
     (case fo of
        None \<Rightarrow> (Inl AttributeError, None)
      | Some f \<Rightarrow> (case m f of (r, f') \<Rightarrow> (r, Some f')))"

text \<open>Statements in sequence: a raise in the first skips the second.\<close>

definition seq ::
  "('s \<Rightarrow> (error + unit) \<times> 's) \<Rightarrow> ('s \<Rightarrow> (error + unit) \<times> 's) \<Rightarrow> 's \<Rightarrow> (error + unit) \<times> 's" where
  "seq m1 m2 s = (case m1 s of (Inl e, s') \<Rightarrow> (Inl e, s') | (Inr _, s') \<Rightarrow> m2 s')"

text \<open>The bodies of the six loops of \<open>_update_restraints\<close>.\<close>

definition update_distance ::
  "real \<Rightarrow> int \<Rightarrow> nat \<times> distance_restraint \<Rightarrow> meld_force option \<Rightarrow> (error + unit) \<times> meld_force option" where
  "update_distance alpha timestep = (\<lambda>(i, dist_rest).
     let scale = dist_scaler dist_rest alpha * dist_ramp dist_rest timestep in
     with_force
       (modifyDistanceRestraint
          i
          (dist_atom_index_1 dist_rest)
          (dist_atom_index_2 dist_rest)
          (dist_r1 dist_rest alpha)
          (dist_r2 dist_rest alpha)
          (dist_r3 dist_rest alpha)
          (dist_r4 dist_rest alpha)
          (dist_k dist_rest * scale)))"

definition update_hyperbolic ::
  "real \<Rightarrow> int \<Rightarrow> nat \<times> hyperbolic_distance_restraint \<Rightarrow> meld_force option
     \<Rightarrow> (error + unit) \<times> meld_force option" where
  "update_hyperbolic alpha timestep = (\<lambda>(i, hyper_rest).
     let scale = hyper_scaler hyper_rest alpha * hyper_ramp hyper_rest timestep in
     with_force
       (modifyHyperbolicDistanceRestraint
          i
          (hyper_atom_index_1 hyper_rest)
          (hyper_atom_index_2 hyper_rest)
          (hyper_r1 hyper_rest)
          (hyper_r2 hyper_rest)
          (hyper_r3 hyper_rest)
          (hyper_r4 hyper_rest)
          (hyper_k hyper_rest * scale)
          (hyper_asymptote hyper_rest * scale)))"

definition update_torsion ::
  "real \<Rightarrow> int \<Rightarrow> nat \<times> torsion_restraint \<Rightarrow> meld_force option \<Rightarrow> (error + unit) \<times> meld_force option" where
  "update_torsion alpha timestep = (\<lambda>(i, tors_rest).
     let scale = tors_scaler tors_rest alpha * tors_ramp tors_rest timestep in
     with_force
       (modifyTorsionRestraint
          i
          (tors_atom_index_1 tors_rest)
          (tors_atom_index_2 tors_rest)
          (tors_atom_index_3 tors_rest)
          (tors_atom_index_4 tors_rest)
          (tors_phi tors_rest)
          (tors_delta_phi tors_rest)
          (tors_k tors_rest * scale)))"

text \<open>
  In the two profile loops \<open>self.force\<close> is read before the column slices are taken,
  so a missing force raises first.
\<close>

definition update_dist_prof ::
  "real \<Rightarrow> int \<Rightarrow> nat \<times> dist_profile_restraint \<Rightarrow> meld_force option
     \<Rightarrow> (error + unit) \<times> meld_force option" where
  "update_dist_prof alpha timestep = (\<lambda>(i, dist_prof_rest).
     let scale = dist_prof_scaler dist_prof_rest alpha * dist_prof_ramp dist_prof_rest timestep in
     with_force (\<lambda>f.
       case columns (dist_prof_spline_params dist_prof_rest) [0, 1, 2, 3] of
         Inl e \<Rightarrow> (Inl e, f)
       | Inr cols \<Rightarrow>
           modifyDistProfileRestraint
             i
             (dist_prof_atom_index_1 dist_prof_rest)
             (dist_prof_atom_index_2 dist_prof_rest)
             (dist_prof_r_min dist_prof_rest)
             (dist_prof_r_max dist_prof_rest)
             (dist_prof_n_bins dist_prof_rest)
             cols
             (dist_prof_scale_factor dist_prof_rest * scale) f))"

definition update_tors_prof ::
  "real \<Rightarrow> int \<Rightarrow> nat \<times> tors_profile_restraint \<Rightarrow> meld_force option
     \<Rightarrow> (error + unit) \<times> meld_force option" where
  "update_tors_prof alpha timestep = (\<lambda>(i, tors_prof_rest).
     let scale = tors_prof_scaler tors_prof_rest alpha * tors_prof_ramp tors_prof_rest timestep in
     with_force (\<lambda>f.
       case columns (tors_prof_spline_params tors_prof_rest)
              [0, 1, 2, 3, 4, 5, 6, 7, 8, 9, 10, 11, 12, 13, 14, 15] of
         Inl e \<Rightarrow> (Inl e, f)
       | Inr cols \<Rightarrow>
           modifyTorsProfileRestraint
             i
             (tors_prof_atom_index_1 tors_prof_rest)
             (tors_prof_atom_index_2 tors_prof_rest)
             (tors_prof_atom_index_3 tors_prof_rest)
             (tors_prof_atom_index_4 tors_prof_rest)
             (tors_prof_atom_index_5 tors_prof_rest)
             (tors_prof_atom_index_6 tors_prof_rest)
             (tors_prof_atom_index_7 tors_prof_rest)
             (tors_prof_atom_index_8 tors_prof_rest)
             (tors_prof_n_bins tors_prof_rest)
             cols
             (tors_prof_scale_factor tors_prof_rest * scale) f))"

text \<open>In the GMM loop \<open>_setup_precisions\<close> runs before \<open>self.force\<close> is read.\<close>

definition update_gmm ::
  "real \<Rightarrow> int \<Rightarrow> nat \<times> gmm_distance_restraint \<Rightarrow> meld_force option
     \<Rightarrow> (error + unit) \<times> meld_force option" where
  "update_gmm alpha timestep = (\<lambda>(i, gmm_rest) fo.
     let scale = gmm_scaler gmm_rest alpha * gmm_ramp gmm_rest timestep;
         nd = gmm_n_distances gmm_rest;
         nc = gmm_n_components gmm_rest;
         w = gmm_weights gmm_rest;
         m = flatten (gmm_means gmm_rest)
     in case setup_precisions (gmm_precisions gmm_rest) nd nc of
          Inl e \<Rightarrow> (Inl e, fo)
        | Inr (d, o') \<Rightarrow>
            with_force (modifyGMMRestraint i nd nc scale (gmm_atoms gmm_rest) w m d o') fo)"

text \<open>\<open>_update_restraints\<close>\<close>

definition update_restraints ::
  "restraint_tracker \<Rightarrow> real \<Rightarrow> int \<Rightarrow> meld_force option \<Rightarrow> (error + unit) \<times> meld_force option" where
  "update_restraints trk alpha timestep =
     seq (for_loop (enumerate 0 (distance_restraints trk)) (update_distance alpha timestep))
    (seq (for_loop (enumerate 0 (hyperbolic_distance_restraints trk)) (update_hyperbolic alpha timestep))
    (seq (for_loop (enumerate 0 (torsion_restraints trk)) (update_torsion alpha timestep))
    (seq (for_loop (enumerate 0 (dist_prof_restraints trk)) (update_dist_prof alpha timestep))
    (seq (for_loop (enumerate 0 (torsion_profile_restraints trk)) (update_tors_prof alpha timestep))
         (for_loop (enumerate 0 (gmm_restraints trk)) (update_gmm alpha timestep))))))"

text \<open>\<open>_update_groups_collections\<close>: an entry that is \<open>None\<close> is passed over.\<close>

definition update_collection ::
  "param_manager \<Rightarrow> istate \<Rightarrow> nat \<times> selectively_active_collection option \<Rightarrow> meld_force option
     \<Rightarrow> (error + unit) \<times> meld_force option" where
  "update_collection pm state = (\<lambda>(i, coll) fo.
     case coll of
       None \<Rightarrow> (Inr (), fo)
     | Some c \<Rightarrow>
         (let num_active = handle_num_active pm (coll_num_active c) state
          in with_force (modifyCollectionNumActive i num_active) fo))"

definition update_group ::
  "param_manager \<Rightarrow> istate \<Rightarrow> nat \<times> restraint_group option \<Rightarrow> meld_force option
     \<Rightarrow> (error + unit) \<times> meld_force option" where
  "update_group pm state = (\<lambda>(i, grp) fo.
     case grp of
       None \<Rightarrow> (Inr (), fo)
     | Some g \<Rightarrow>
         (let num_active = handle_num_active pm (group_num_active g) state
          in with_force (modifyGroupNumActive i num_active) fo))"

definition update_groups_collections ::
  "param_manager \<Rightarrow> restraint_tracker \<Rightarrow> istate \<Rightarrow> meld_force option
     \<Rightarrow> (error + unit) \<times> meld_force option" where
  "update_groups_collections pm trk state =
     seq (for_loop (enumerate 0 (collections trk)) (update_collection pm state))
         (for_loop (enumerate 0 (groups trk)) (update_group pm state))"

text \<open>\<open>update\<close>; the simulation is its context.\<close>

record simulation =
  sim_context :: nat

definition update ::
  "transformer \<Rightarrow> istate \<Rightarrow> simulation \<Rightarrow> real \<Rightarrow> int \<Rightarrow> (error + unit) \<times> transformer" where
  "update self state sim alpha timestep =
     (if active self then
        (case seq (update_restraints (tracker self) alpha timestep)
               (seq (update_groups_collections (param_manager self) (tracker self) state)
                    (with_force (\<lambda>f. (Inr (), updateParametersInContext (sim_context sim) f))))
               (force self) of
           (r, fo) \<Rightarrow> (r, self\<lparr>force := fo\<rparr>))
      else (Inr (), self))"

text \<open>Any number of update steps, one after the other, whether or not a step raised.\<close>

fun updates :: "transformer \<Rightarrow> (istate \<times> simulation \<times> real \<times> int) list \<Rightarrow> transformer" where
  "updates self [] = self"
| "updates self ((state, sim, alpha, timestep) # steps) =
     updates (snd (update self state sim alpha timestep)) steps"

subsection \<open>The parameter lists in the specification's words\<close>

text \<open>
  Section 4.2 of the specification: for each restraint kind a fixed parameter list, made
  of the atom indices, the geometric bounds (those of a distance restraint evaluated at
  alpha), the force constant times \<open>scaler(alpha) * ramp(timestep)\<close>, for the hyperbolic
  kind also the asymptote times that scale, for the profile kinds the bin count and one
  sequence per spline-coefficient column, for the GMM kind the counts, the scale, the
  atoms, the weights, the flattened means and the two sequences of the decomposer.
\<close>

fun spec_kind :: "restraint \<Rightarrow> kind option" where
  "spec_kind (DistanceRestraint r) = Some Distance"
| "spec_kind (HyperbolicDistanceRestraint r) = Some HyperbolicDistance"
| "spec_kind (TorsionRestraint r) = Some Torsion"
| "spec_kind (DistProfileRestraint r) = Some DistProfile"
| "spec_kind (TorsProfileRestraint r) = Some TorsProfile"
| "spec_kind (GMMDistanceRestraint r) = Some GMM"
| "spec_kind (OtherRestraint r) = None"

definition spec_column :: "ndarray2 \<Rightarrow> nat \<Rightarrow> pyval" where
  "spec_column a c = VFloatList (map (\<lambda>i. at2 a i c) [0 ..< nrows a])"

fun spec_params :: "restraint \<Rightarrow> real \<Rightarrow> int \<Rightarrow> pyval list" where
  "spec_params (DistanceRestraint r) alpha t =
     [VInt (dist_atom_index_1 r), VInt (dist_atom_index_2 r),
      VFloat (dist_r1 r alpha), VFloat (dist_r2 r alpha), VFloat (dist_r3 r alpha),
      VFloat (dist_r4 r alpha),
      VFloat (dist_k r * (dist_scaler r alpha * dist_ramp r t))]"
| "spec_params (HyperbolicDistanceRestraint r) alpha t =
     [VInt (hyper_atom_index_1 r), VInt (hyper_atom_index_2 r),
      VFloat (hyper_r1 r), VFloat (hyper_r2 r), VFloat (hyper_r3 r), VFloat (hyper_r4 r),
      VFloat (hyper_k r * (hyper_scaler r alpha * hyper_ramp r t)),
      VFloat (hyper_asymptote r * (hyper_scaler r alpha * hyper_ramp r t))]"
| "spec_params (TorsionRestraint r) alpha t =
     [VInt (tors_atom_index_1 r), VInt (tors_atom_index_2 r), VInt (tors_atom_index_3 r),
      VInt (tors_atom_index_4 r),
      VFloat (tors_phi r), VFloat (tors_delta_phi r),
      VFloat (tors_k r * (tors_scaler r alpha * tors_ramp r t))]"
| "spec_params (DistProfileRestraint r) alpha t =
     [VInt (dist_prof_atom_index_1 r), VInt (dist_prof_atom_index_2 r),
      VFloat (dist_prof_r_min r), VFloat (dist_prof_r_max r), VInt (dist_prof_n_bins r)]
     @ map (spec_column (dist_prof_spline_params r)) [0 ..< 4]
     @ [VFloat (dist_prof_scale_factor r * (dist_prof_scaler r alpha * dist_prof_ramp r t))]"
| "spec_params (TorsProfileRestraint r) alpha t =
     [VInt (tors_prof_atom_index_1 r), VInt (tors_prof_atom_index_2 r),
      VInt (tors_prof_atom_index_3 r), VInt (tors_prof_atom_index_4 r),
      VInt (tors_prof_atom_index_5 r), VInt (tors_prof_atom_index_6 r),
      VInt (tors_prof_atom_index_7 r), VInt (tors_prof_atom_index_8 r),
      VInt (tors_prof_n_bins r)]
     @ map (spec_column (tors_prof_spline_params r)) [0 ..< 16]
     @ [VFloat (tors_prof_scale_factor r * (tors_prof_scaler r alpha * tors_prof_ramp r t))]"
| "spec_params (GMMDistanceRestraint r) alpha t =
     [VInt (gmm_n_distances r), VInt (gmm_n_components r),
      VFloat (gmm_scaler r alpha * gmm_ramp r t),
      VIntList (gmm_atoms r), VFloatList (gmm_weights r), VFloatList (flatten (gmm_means r)),
      VFloatList (spec_diag (gmm_precisions r) (nat (gmm_n_components r)) (nat (gmm_n_distances r))),
      VFloatList (spec_offdiag (gmm_precisions r) (nat (gmm_n_components r)) (nat (gmm_n_distances r)))]"
| "spec_params (OtherRestraint r) alpha t = []"

text \<open>
  A restraint is well shaped when it is of one of the six kinds and its arrays hold
  what the parameter list reads: four or sixteen spline columns, and a precision stack
  that covers the declared components and distances (nothing is read when either count
  is not positive).
\<close>

fun well_shaped :: "restraint \<Rightarrow> bool" where
  "well_shaped (DistanceRestraint r) = True"
| "well_shaped (HyperbolicDistanceRestraint r) = True"
| "well_shaped (TorsionRestraint r) = True"
| "well_shaped (DistProfileRestraint r) = (4 \<le> ncols (dist_prof_spline_params r))"
| "well_shaped (TorsProfileRestraint r) = (16 \<le> ncols (tors_prof_spline_params r))"
| "well_shaped (GMMDistanceRestraint r) =
     (gmm_n_components r \<le> 0 \<or> gmm_n_distances r \<le> 0
      \<or> (nat (gmm_n_components r) \<le> dim0 (gmm_precisions r)
         \<and> nat (gmm_n_distances r) \<le> dim1 (gmm_precisions r)
         \<and> nat (gmm_n_distances r) \<le> dim2 (gmm_precisions r)))"
| "well_shaped (OtherRestraint r) = False"

text \<open>The tracker after the restraint is appended to the sequence of its kind.\<close>

fun track :: "restraint \<Rightarrow> restraint_tracker \<Rightarrow> restraint_tracker" where
  "track (DistanceRestraint r) tr = tr\<lparr>distance_restraints := distance_restraints tr @ [r]\<rparr>"
| "track (HyperbolicDistanceRestraint r) tr =
     tr\<lparr>hyperbolic_distance_restraints := hyperbolic_distance_restraints tr @ [r]\<rparr>"
| "track (TorsionRestraint r) tr = tr\<lparr>torsion_restraints := torsion_restraints tr @ [r]\<rparr>"
| "track (DistProfileRestraint r) tr = tr\<lparr>dist_prof_restraints := dist_prof_restraints tr @ [r]\<rparr>"
| "track (TorsProfileRestraint r) tr =
     tr\<lparr>torsion_profile_restraints := torsion_profile_restraints tr @ [r]\<rparr>"
| "track (GMMDistanceRestraint r) tr = tr\<lparr>gmm_restraints := gmm_restraints tr @ [r]\<rparr>"
| "track (OtherRestraint r) tr = tr"

text \<open>The sequence of the tracker for a kind, as restraints.\<close>

fun tracked :: "restraint_tracker \<Rightarrow> kind \<Rightarrow> restraint list" where
  "tracked tr Distance = map DistanceRestraint (distance_restraints tr)"
| "tracked tr HyperbolicDistance = map HyperbolicDistanceRestraint (hyperbolic_distance_restraints tr)"
| "tracked tr Torsion = map TorsionRestraint (torsion_restraints tr)"
| "tracked tr DistProfile = map DistProfileRestraint (dist_prof_restraints tr)"
| "tracked tr TorsProfile = map TorsProfileRestraint (torsion_profile_restraints tr)"
| "tracked tr GMM = map GMMDistanceRestraint (gmm_restraints tr)"

text \<open>
  The order in which \<open>add_interactions\<close> meets the restraints: the always-active ones,
  then collection by collection, group by group.
\<close>

definition all_groups :: "transformer \<Rightarrow> restraint_group list" where
  "all_groups self = concat (map coll_groups (selective_on self))"

definition registration_order :: "transformer \<Rightarrow> restraint list" where
  "registration_order self = always_on self @ concat (map group_restraints (all_groups self))"

text \<open>The force after the creation call for the restraint, at the given alpha and timestep.\<close>

definition register :: "restraint \<Rightarrow> real \<Rightarrow> int \<Rightarrow> meld_force \<Rightarrow> meld_force" where
  "register rest alpha t f = snd (add_restraint (the (spec_kind rest)) (spec_params rest alpha t) f)"

text \<open>
  How a run of creation calls extends the tracker and the force: the restraints
  registered (in order), the group entries appended to the tracker and to the engine,
  and the collection entries appended to the tracker and to the engine.
\<close>

text \<open>A call that creates a restraint.\<close>

fun is_creation :: "call \<Rightarrow> bool" where
  "is_creation (Call (Add K) args) = True"
| "is_creation (Call m args) = False"

definition creation_call :: "restraint \<Rightarrow> real \<Rightarrow> int \<Rightarrow> call" where
  "creation_call r alpha t = Call (Add (the (spec_kind r))) (spec_params r alpha t)"

definition grows ::
  "restraint_tracker \<times> meld_force \<Rightarrow> restraint list
     \<Rightarrow> restraint_group option list \<Rightarrow> (nat list \<times> int) list
     \<Rightarrow> selectively_active_collection option list \<Rightarrow> (nat list \<times> int) list
     \<Rightarrow> restraint_tracker \<times> meld_force \<Rightarrow> bool" where
  "grows s rs tgs egs tcs ecs s' =
     (let tr = fst s; f = snd s; tr' = fst s'; f' = snd s' in
        list_all (\<lambda>K. tracked tr' K = tracked tr K @ filter (\<lambda>r. spec_kind r = Some K) rs
                     \<and> stored f' K = stored f K
                          @ map (\<lambda>r. spec_params r 0 0) (filter (\<lambda>r. spec_kind r = Some K) rs))
          [Distance, HyperbolicDistance, Torsion, DistProfile, TorsProfile, GMM]
      \<and> n_restraints f' = n_restraints f + length rs
      \<and> filter is_creation (calls f') = filter is_creation (calls f) @ map (\<lambda>r. creation_call r 0 0) rs
      \<and> groups tr' = groups tr @ tgs
      \<and> groups_f f' = groups_f f @ egs
      \<and> collections tr' = collections tr @ tcs
      \<and> collections_f f' = collections_f f @ ecs)"

text \<open>
  The engine's entries for a run of groups, the first restraint of which receives index
  \<open>n\<close>: each group holds the indices of its restraints and its own resolved count.
\<close>

fun group_entries :: "param_manager \<Rightarrow> istate \<Rightarrow> nat \<Rightarrow> restraint_group list \<Rightarrow> (nat list \<times> int) list" where
  "group_entries pm state n [] = []"
| "group_entries pm state n (g # gs) =
     ([n ..< n + length (group_restraints g)], handle_num_active pm (group_num_active g) state)
       # group_entries pm state (n + length (group_restraints g)) gs"

text \<open>
  The value of the loop variable \<open>group\<close> after the loop over the groups of a
  collection.
\<close>

definition group_after :: "restraint_group option \<Rightarrow> selectively_active_collection \<Rightarrow> restraint_group option" where
  "group_after gv c = (if coll_groups c = [] then gv else Some (last (coll_groups c)))"

text \<open>
  The engine's entries for a run of collections, the first group of which receives
  index \<open>m\<close>: each collection holds the indices of its groups, and the count that the
  source resolves for it, from the variable \<open>group\<close>.
\<close>

fun coll_entries ::
  "param_manager \<Rightarrow> istate \<Rightarrow> nat \<Rightarrow> restraint_group option \<Rightarrow> selectively_active_collection list
     \<Rightarrow> (nat list \<times> int) list" where
  "coll_entries pm state m gv [] = []"
| "coll_entries pm state m gv (c # cs) =
     ([m ..< m + length (coll_groups c)],
      handle_num_active pm (group_num_active (the (group_after gv c))) state)
       # coll_entries pm state (m + length (coll_groups c)) (group_after gv c) cs"

text \<open>The variable \<open>group\<close> is bound whenever the count of a collection is resolved.\<close>

fun group_bound :: "restraint_group option \<Rightarrow> selectively_active_collection list \<Rightarrow> bool" where
  "group_bound gv [] = True"
| "group_bound gv (c # cs) = (group_after gv c \<noteq> None \<and> group_bound (group_after gv c) cs)"

text \<open>
  What \<open>add_interactions\<close> needs to run to its end: every restraint it meets is well
  shaped, and the variable \<open>group\<close> is bound when a collection is created.
\<close>

definition registrable :: "transformer \<Rightarrow> bool" where
  "registrable self = (list_all well_shaped (registration_order self) \<and> group_bound None (selective_on self))"

text \<open>
  The entries of the tracker and of the engine once \<open>add_interactions\<close> has run: one
  singleton group of count 1 per always-active restraint and, when there is any, one
  collection of all of them; then the groups and collections of the selective input.
\<close>

definition tracker_groups_after :: "transformer \<Rightarrow> restraint_group option list" where
  "tracker_groups_after self = replicate (length (always_on self)) None @ map Some (all_groups self)"

definition engine_groups_after :: "transformer \<Rightarrow> istate \<Rightarrow> (nat list \<times> int) list" where
  "engine_groups_after self state =
     map (\<lambda>i. ([i], 1)) [0 ..< length (always_on self)]
     @ group_entries (param_manager self) state (length (always_on self)) (all_groups self)"

definition tracker_collections_after :: "transformer \<Rightarrow> selectively_active_collection option list" where
  "tracker_collections_after self =
     (if always_on self = [] then [] else [None]) @ map Some (selective_on self)"

definition engine_collections_after :: "transformer \<Rightarrow> istate \<Rightarrow> (nat list \<times> int) list" where
  "engine_collections_after self state =
     (if always_on self = [] then []
      else [([0 ..< length (always_on self)], int (length (always_on self)))])
     @ coll_entries (param_manager self) state (length (always_on self)) None (selective_on self)"

text \<open>
  The update calls of one pass of \<open>_update_restraints\<close> over a sequence of the
  tracker: entry \<open>i\<close> is refreshed at engine index \<open>i\<close>.
\<close>

definition refresh_calls :: "kind \<Rightarrow> restraint list \<Rightarrow> real \<Rightarrow> int \<Rightarrow> call list" where
  "refresh_calls K rs alpha t =
     map (\<lambda>(i, r). Call (Modify K) (VInt (int i) # spec_params r alpha t)) (enumerate 0 rs)"

definition all_kinds :: "kind list" where
  "all_kinds = [Distance, HyperbolicDistance, Torsion, DistProfile, TorsProfile, GMM]"

text \<open>
  The tracker and the force are in step: the engine holds one entry per tracked
  restraint, group and collection, and every tracked restraint is well shaped.
\<close>

definition in_step :: "restraint_tracker \<Rightarrow> meld_force \<Rightarrow> bool" where
  "in_step tr f =
     (list_all (\<lambda>K. length (stored f K) = length (tracked tr K) \<and> list_all well_shaped (tracked tr K))
        all_kinds
      \<and> length (groups_f f) = length (groups tr)
      \<and> length (collections_f f) = length (collections tr))"

text \<open>
  The counts after one pass of \<open>_update_groups_collections\<close>: an entry tracked as
  \<open>None\<close> keeps its count, any other receives the count resolved for it.
\<close>

definition refreshed :: "('a \<Rightarrow> int) \<Rightarrow> 'a option list \<Rightarrow> (nat list \<times> int) list \<Rightarrow> (nat list \<times> int) list" where
  "refreshed cnt ts es = map (\<lambda>(t, e). case t of None \<Rightarrow> e | Some x \<Rightarrow> (fst e, cnt x)) (zip ts es)"

text \<open>A call addresses entry \<open>i\<close> through the given engine function.\<close>

fun addresses :: "engine_method \<Rightarrow> nat \<Rightarrow> call \<Rightarrow> bool" where
  "addresses m i (Call m' (a # args)) = (m' = m \<and> a = VInt (int i))"
| "addresses m i (Call m' []) = False"

text \<open>The positions of the entries tracked as \<open>None\<close>.\<close>

definition sentinels :: "'a option list \<Rightarrow> nat list" where
  "sentinels ts = filter (\<lambda>i. ts ! i = None) [0 ..< length ts]"

text \<open>
  From \<open>f\<close> to \<open>f'\<close> the engine received further calls, none of which addresses a
  group or collection tracked as \<open>None\<close>, and the entries of those are the same.
\<close>

definition sentinels_kept :: "restraint_tracker \<Rightarrow> meld_force \<Rightarrow> meld_force \<Rightarrow> bool" where
  "sentinels_kept tr f f' =
     (take (length (calls f)) (calls f') = calls f
      \<and> list_all (\<lambda>i. list_all (\<lambda>c. \<not> addresses ModifyGroupNumActive i c) (drop (length (calls f)) (calls f'))
                      \<and> groups_f f' ! i = groups_f f ! i)
           (sentinels (groups tr))
      \<and> list_all (\<lambda>i. list_all (\<lambda>c. \<not> addresses ModifyCollectionNumActive i c) (drop (length (calls f)) (calls f'))
                      \<and> collections_f f' ! i = collections_f f ! i)
           (sentinels (collections tr)))"

text \<open>The force is set, and from \<open>f0\<close> to it the entries tracked as \<open>None\<close> were kept.\<close>

definition kept_from :: "restraint_tracker \<Rightarrow> meld_force \<Rightarrow> meld_force option \<Rightarrow> bool" where
  "kept_from tr f0 fo = (case fo of None \<Rightarrow> False | Some f' \<Rightarrow> sentinels_kept tr f0 f')"

subsection \<open>A small system\<close>

text \<open>
  One always-active distance restraint with force constant 10, next to a restraint of a
  class that belongs to another transformer; one collection, to enforce one of its two
  groups, the first group holding one torsion restraint and the second two, both to be
  enforced.
\<close>

definition ex_distance :: distance_restraint where
  "ex_distance =
     \<lparr>dist_scaler = (\<lambda>alpha. 1 - alpha / 2), dist_ramp = (\<lambda>t. if t < 100 then real_of_int t / 100 else 1),
      dist_atom_index_1 = 0, dist_atom_index_2 = 1,
      dist_r1 = (\<lambda>alpha. 0), dist_r2 = (\<lambda>alpha. alpha), dist_r3 = (\<lambda>alpha. 3 - alpha), dist_r4 = (\<lambda>alpha. 4),
      dist_k = 10\<rparr>"

definition ex_torsion :: "int \<Rightarrow> torsion_restraint" where
  "ex_torsion a =
     \<lparr>tors_scaler = (\<lambda>alpha. 1), tors_ramp = (\<lambda>t. 1),
      tors_atom_index_1 = a, tors_atom_index_2 = a + 1, tors_atom_index_3 = a + 2, tors_atom_index_4 = a + 3,
      tors_phi = 60, tors_delta_phi = 15, tors_k = 5\<rparr>"

definition ex_group1 :: restraint_group where
  "ex_group1 = \<lparr>group_restraints = [TorsionRestraint (ex_torsion 2)], group_num_active = Literal 1\<rparr>"

definition ex_group2 :: restraint_group where
  "ex_group2 =
     \<lparr>group_restraints = [TorsionRestraint (ex_torsion 6), TorsionRestraint (ex_torsion 10)],
      group_num_active = Literal 2\<rparr>"

definition ex_collection :: selectively_active_collection where
  "ex_collection = \<lparr>coll_groups = [ex_group1, ex_group2], coll_num_active = Literal 1\<rparr>"

definition ex_manager :: param_manager where
  "ex_manager = \<lparr>extract_value = (\<lambda>p values. 27 / 10)\<rparr>"

definition ex_state :: istate where
  "ex_state = \<lparr>parameters = [1 / 2]\<rparr>"

definition ex_transformer :: transformer where
  "ex_transformer =
     fst (MeldRestraintTransformer ex_manager ()
            [Selectable (DistanceRestraint ex_distance), NonSelectable 7] [ex_collection])"

text \<open>The same system after \<open>add_interactions\<close>, and its force.\<close>

definition ex_registered :: transformer where
  "ex_registered = snd (add_interactions ex_transformer ex_state [] ())"

definition ex_force :: meld_force where
  "ex_force = the (force ex_registered)"

text \<open>A transformer whose always-active input holds a restraint of a class it has no branch for.\<close>

definition ex_unknown :: transformer where
  "ex_unknown =
     fst (MeldRestraintTransformer ex_manager ()
            [Selectable (DistanceRestraint ex_distance),
             Selectable (OtherRestraint \<lparr>other_scaler = (\<lambda>alpha. 1), other_ramp = (\<lambda>t. 1)\<rparr>)] [])"

section \<open>Loops\<close>

lemma for_loop_append:
  assumes "\<And>x acc. x \<in> set xs \<Longrightarrow> body x acc = (Inr (), acc @ f x)"
  shows "for_loop xs body acc = (Inr (), acc @ concat (map f xs))"
  using assms by (induction xs arbitrary: acc) simp_all

section \<open>The precision decomposer\<close>

lemma diags_outer_ok:
  assumes "nd \<le> 0 \<or> (i < dim0 p \<and> nat nd \<le> dim1 p \<and> nat nd \<le> dim2 p)"
  shows "diags_outer p nd i acc = (Inr (), acc @ map (\<lambda>d. at3 p i d d) [0 ..< nat nd])"
proof -
  have "for_loop (py_range nd) (diags_inner p i) acc
          = (Inr (), acc @ concat (map (\<lambda>d. [at3 p i d d]) (py_range nd)))"
    using assms by (intro for_loop_append) (auto simp: diags_inner_def getitem3_def py_range_def)
  then show ?thesis
    by (simp add: diags_outer_def py_range_def)
qed

lemma off_diags_middle_ok:
  assumes "i < dim0 p" "j < dim1 p" "nat nd \<le> dim2 p"
  shows "off_diags_middle p nd i j acc = (Inr (), acc @ map (\<lambda>k. at3 p i j k) [Suc j ..< nat nd])"
proof -
  have "for_loop (range_from (j + 1) nd) (off_diags_inner p i j) acc
          = (Inr (), acc @ concat (map (\<lambda>k. [at3 p i j k]) (range_from (j + 1) nd)))"
    using assms by (intro for_loop_append) (simp add: off_diags_inner_def getitem3_def range_from_def)
  then show ?thesis
    by (simp add: off_diags_middle_def range_from_def)
qed

lemma off_diags_outer_ok:
  assumes "nd \<le> 0 \<or> (i < dim0 p \<and> nat nd \<le> dim1 p \<and> nat nd \<le> dim2 p)"
  shows "off_diags_outer p nd i acc =
           (Inr (), acc @ concat (map (\<lambda>j. map (\<lambda>k. at3 p i j k) [Suc j ..< nat nd]) [0 ..< nat nd]))"
  unfolding off_diags_outer_def py_range_def
  using assms by (intro for_loop_append) (auto simp: off_diags_middle_ok)

lemma setup_precisions_ok:
  assumes "nc \<le> 0 \<or> nd \<le> 0 \<or> (nat nc \<le> dim0 p \<and> nat nd \<le> dim1 p \<and> nat nd \<le> dim2 p)"
  shows "setup_precisions p nd nc = Inr (spec_diag p (nat nc) (nat nd), spec_offdiag p (nat nc) (nat nd))"
proof -
  have d: "for_loop (py_range nc) (diags_outer p nd) [] = (Inr (), [] @ spec_diag p (nat nc) (nat nd))"
    unfolding spec_diag_def py_range_def
    using assms by (intro for_loop_append) (auto simp: diags_outer_ok)
  have od: "for_loop (py_range nc) (off_diags_outer p nd) [] = (Inr (), [] @ spec_offdiag p (nat nc) (nat nd))"
    unfolding spec_offdiag_def py_range_def
    using assms by (intro for_loop_append) (auto simp: off_diags_outer_ok)
  show ?thesis
    by (simp add: setup_precisions_def d od)
qed

lemma length_spec_diag: "length (spec_diag p C D) = C * D"
  by (induction C) (simp_all add: spec_diag_def)

lemma nth_spec_diag:
  assumes "c < C" "d < D"
  shows "spec_diag p C D ! (c * D + d) = at3 p c d d"
  using assms(1)
proof (induction C)
  case 0
  then show ?case by simp
next
  case (Suc C)
  have step: "spec_diag p (Suc C) D = spec_diag p C D @ map (\<lambda>d. at3 p C d d) [0 ..< D]"
    by (simp add: spec_diag_def)
  show ?case
  proof (cases "c = C")
    case True
    then show ?thesis
      using assms(2) by (simp add: step nth_append length_spec_diag)
  next
    case False
    with Suc.prems have "c < C" by simp
    then have "Suc c \<le> C" by simp
    then have "Suc c * D \<le> C * D" by (rule mult_le_mono1)
    then have "c * D + d < C * D" using assms(2) by simp
    then show ?thesis
      using Suc.IH[OF \<open>c < C\<close>] by (simp add: step nth_append length_spec_diag)
  qed
qed

lemma length_row_offdiag:
  "length (concat (map (\<lambda>j. map (f j) [Suc j ..< D]) [0 ..< D])) = D * (D - 1) div 2"
proof -
  have "length (concat (map (\<lambda>j. map (f j) [Suc j ..< D]) [0 ..< n])) + (D - n) * (D - n - 1) div 2
          = D * (D - 1) div 2"
    if "n \<le> D" for n
    using that
  proof (induction n)
    case 0
    then show ?case by simp
  next
    case (Suc n)
    then have IH: "length (concat (map (\<lambda>j. map (f j) [Suc j ..< D]) [0 ..< n]))
                     + (D - n) * (D - n - 1) div 2 = D * (D - 1) div 2"
      by simp
    obtain m where m: "D - n = Suc m"
      using Suc.prems by (metis Suc_diff_Suc Suc_le_lessD)
    have m1: "D - Suc n = m" and m2: "D - Suc n - 1 = m - 1"
      using m by simp_all
    have tri: "Suc m * m div 2 = m + m * (m - 1) div 2"
      by (cases m) (simp_all add: algebra_simps)
    have len: "length (concat (map (\<lambda>j. map (f j) [Suc j ..< D]) [0 ..< Suc n]))
                 = length (concat (map (\<lambda>j. map (f j) [Suc j ..< D]) [0 ..< n])) + m"
      using m1 by simp
    have "Suc m - 1 = m" by simp
    with IH m tri
    have "length (concat (map (\<lambda>j. map (f j) [Suc j ..< D]) [0 ..< n])) + (m + m * (m - 1) div 2)
            = D * (D - 1) div 2"
      by simp
    then show ?case unfolding len m1 m2 by simp
  qed
  from this[of D] show ?thesis by simp
qed

lemma length_spec_offdiag: "length (spec_offdiag p C D) = C * (D * (D - 1) div 2)"
  by (induction C) (simp_all add: spec_offdiag_def length_row_offdiag del: length_concat)

text \<open>
  C3. For a precision stack of shape (C, D, D), \<open>_setup_precisions\<close> called with D
  distances and C components returns, without raising, a diagonal sequence of length
  C*D whose entry c*D+d is \<open>precisions[c,d,d]\<close>, and an off-diagonal sequence that lists
  \<open>precisions[c,j,k]\<close> for every component c and every j < k < D, components outermost,
  then j, then k innermost; it has D*(D-1)/2 entries per component.
\<close>

theorem setup_precisions_decomposition:
  assumes "dim0 p = C" and "dim1 p = D" and "dim2 p = D"
  shows "\<exists>diag offdiag.
           setup_precisions p (int D) (int C) = Inr (diag, offdiag)
         \<and> length diag = C * D
         \<and> (\<forall>c<C. \<forall>d<D. diag ! (c * D + d) = at3 p c d d)
         \<and> offdiag = concat (map (\<lambda>c. concat (map (\<lambda>j. map (\<lambda>k. at3 p c j k) [Suc j ..< D]) [0 ..< D])) [0 ..< C])
         \<and> length offdiag = C * (D * (D - 1) div 2)"
proof -
  have "setup_precisions p (int D) (int C) = Inr (spec_diag p C D, spec_offdiag p C D)"
    using setup_precisions_ok[where nc = "int C" and p = p and nd = "int D"] assms by simp
  moreover have "length (spec_diag p C D) = C * D"
    by (rule length_spec_diag)
  moreover have "\<forall>c<C. \<forall>d<D. spec_diag p C D ! (c * D + d) = at3 p c d d"
    by (simp add: nth_spec_diag)
  moreover have "length (spec_offdiag p C D) = C * (D * (D - 1) div 2)"
    by (rule length_spec_offdiag)
  ultimately show ?thesis
    unfolding spec_offdiag_def by blast
qed

text \<open>
  The two-component, three-distance stack with entry 9c + 3j + k at [c, j, k]: the
  diagonal is 0, 4, 8, 9, 13, 17 and the off-diagonal part 1, 2, 5, 10, 11, 14.
\<close>

theorem setup_precisions_decomposition_witness:
  "setup_precisions \<lparr>dim0 = 2, dim1 = 3, dim2 = 3, at3 = (\<lambda>c j k. real (9 * c + 3 * j + k))\<rparr> 3 2
     = Inr ([0, 4, 8, 9, 13, 17], [1, 2, 5, 10, 11, 14])
   \<and> length [0, 4, 8, 9, 13, 17 :: real] = 2 * 3
   \<and> [0, 4, 8, 9, 13, 17 :: real] ! (1 * 3 + 1) = real (9 * 1 + 3 * 1 + 1)"
proof -
  have run: "setup_precisions \<lparr>dim0 = 2, dim1 = 3, dim2 = 3, at3 = (\<lambda>c j k. real (9 * c + 3 * j + k))\<rparr> 3 2
               = Inr ([0, 4, 8, 9, 13, 17], [1, 2, 5, 10, 11, 14])"
    by code_simp
  have idx: "[0, 4, 8, 9, 13, 17 :: real] ! (1 * 3 + 1) = real (9 * 1 + 3 * 1 + 1)"
    by simp
  have shape: "dim0 \<lparr>dim0 = 2, dim1 = 3, dim2 = 3, at3 = (\<lambda>c j k. real (9 * c + 3 * j + k))\<rparr> = 2"
              "dim1 \<lparr>dim0 = 2, dim1 = 3, dim2 = 3, at3 = (\<lambda>c j k. real (9 * c + 3 * j + k))\<rparr> = 3"
              "dim2 \<lparr>dim0 = 2, dim1 = 3, dim2 = 3, at3 = (\<lambda>c j k. real (9 * c + 3 * j + k))\<rparr> = 3"
    by simp_all
  from setup_precisions_decomposition[OF shape]
  have "\<exists>diag offdiag.
          setup_precisions \<lparr>dim0 = 2, dim1 = 3, dim2 = 3, at3 = (\<lambda>c j k. real (9 * c + 3 * j + k))\<rparr> (int 3) (int 2)
            = Inr (diag, offdiag) \<and> length diag = 2 * 3"
    by blast
  with run idx show ?thesis by simp
qed

section \<open>The active-count resolver\<close>

lemma py_int_bounds: "\<bar>real_of_int (py_int x)\<bar> \<le> \<bar>x\<bar> \<and> \<bar>x - real_of_int (py_int x)\<bar> < 1"
  unfolding py_int_def by (auto; linarith)

text \<open>
  C4. \<open>_handle_num_active\<close> returns a literal integer unchanged, whatever the state;
  for a sampled-parameter reference it returns \<open>int(extract_value(ref, state.parameters))\<close>,
  the value truncated toward zero: an integer no larger in magnitude than the value and
  less than one away from it.
\<close>

theorem handle_num_active_resolves:
  "handle_num_active pm (Literal n) state = n
   \<and> handle_num_active pm (Sampled ref) state = py_int (extract_value pm ref (parameters state))
   \<and> py_int x = (if 0 \<le> x then \<lfloor>x\<rfloor> else - \<lfloor>- x\<rfloor>)
   \<and> \<bar>real_of_int (py_int x)\<bar> \<le> \<bar>x\<bar>
   \<and> \<bar>x - real_of_int (py_int x)\<bar> < 1"
  using py_int_bounds[of x] by (simp add: py_int_def ceiling_def)

text \<open>A literal 3 resolves to 3; a manager that returns 2.7 gives 2.\<close>

theorem handle_num_active_resolves_witness:
  "handle_num_active \<lparr>extract_value = (\<lambda>_ _. 27 / 10)\<rparr> (Literal 3) \<lparr>parameters = [1 / 2]\<rparr> = 3
   \<and> handle_num_active \<lparr>extract_value = (\<lambda>_ _. 27 / 10)\<rparr> (Sampled (Parameter 0)) \<lparr>parameters = [1 / 2]\<rparr> = 2"
  using handle_num_active_resolves
          [of "\<lparr>extract_value = (\<lambda>_ _. 27 / 10)\<rparr>" 3 "\<lparr>parameters = [1 / 2]\<rparr>" "Parameter 0" "27 / 10"]
  by simp

section \<open>Errors of the serializer\<close>

lemma columns_ok:
  "\<forall>c\<in>set cs. c < ncols a \<Longrightarrow> columns a cs = Inr (map (\<lambda>c. map (\<lambda>i. at2 a i c) [0 ..< nrows a]) cs)"
  by (induction cs) (simp_all add: column_def)

lemma columns_error: "columns a cs = Inl e \<Longrightarrow> e = IndexError"
  by (induction cs arbitrary: e) (auto simp: column_def split: if_splits sum.splits)

lemma for_loop_error:
  "fst (for_loop xs body s) = Inl e \<Longrightarrow> \<exists>x\<in>set xs. \<exists>s'. fst (body x s') = Inl e"
proof (induction xs arbitrary: s)
  case Nil
  then show ?case by simp
next
  case (Cons x xs)
  show ?case
  proof (cases "body x s")
    case (Pair r s1)
    show ?thesis
    proof (cases r)
      case (Inl e')
      with Pair Cons.prems have "fst (body x s) = Inl e" by simp
      then show ?thesis by auto
    next
      case (Inr u)
      with Pair Cons.prems have "fst (for_loop xs body s1) = Inl e" by simp
      from Cons.IH[OF this] show ?thesis by auto
    qed
  qed
qed

lemma setup_precisions_error:
  assumes "setup_precisions p nd nc = Inl e"
  shows "e = IndexError"
proof -
  have inner1: "fst (diags_inner p i j acc) = Inl e' \<Longrightarrow> e' = IndexError" for i j acc e'
    by (auto simp: diags_inner_def getitem3_def split: if_splits)
  have outer1: "fst (diags_outer p nd i acc) = Inl e' \<Longrightarrow> e' = IndexError" for i acc e'
    unfolding diags_outer_def by (drule for_loop_error) (auto dest: inner1)
  have inner2: "fst (off_diags_inner p i j k acc) = Inl e' \<Longrightarrow> e' = IndexError" for i j k acc e'
    by (auto simp: off_diags_inner_def getitem3_def split: if_splits)
  have mid2: "fst (off_diags_middle p nd i j acc) = Inl e' \<Longrightarrow> e' = IndexError" for i j acc e'
    unfolding off_diags_middle_def by (drule for_loop_error) (auto dest: inner2)
  have outer2: "fst (off_diags_outer p nd i acc) = Inl e' \<Longrightarrow> e' = IndexError" for i acc e'
    unfolding off_diags_outer_def by (drule for_loop_error) (auto dest: mid2)
  have l1: "for_loop (py_range nc) (diags_outer p nd) [] = (Inl e', s) \<Longrightarrow> e' = IndexError" for e' s
    using for_loop_error[of "py_range nc" "diags_outer p nd" "[]" e'] by (auto dest: outer1)
  have l2: "for_loop (py_range nc) (off_diags_outer p nd) [] = (Inl e', s) \<Longrightarrow> e' = IndexError" for e' s
    using for_loop_error[of "py_range nc" "off_diags_outer p nd" "[]" e'] by (auto dest: outer2)
  from assms show ?thesis
    unfolding setup_precisions_def
    by (auto split: prod.splits sum.splits dest: l1 l2)
qed

lemma add_meld_restraint_other:
  "add_meld_restraint (OtherRestraint r) alpha timestep (tr, f) = (Inl RuntimeError, tr, f)"
  by (simp add: add_meld_restraint_def)

section \<open>Registration of one restraint\<close>

lemma upt_4: "[0 ..< 4] = [0, 1, 2, 3 :: nat]"
  by code_simp

lemma upt_16: "[0 ..< 16] = [0, 1, 2, 3, 4, 5, 6, 7, 8, 9, 10, 11, 12, 13, 14, 15 :: nat]"
  by code_simp

lemma columns_spec:
  assumes "n \<le> ncols a"
  shows "columns a [0 ..< n] = Inr (map (\<lambda>c. map (\<lambda>i. at2 a i c) [0 ..< nrows a]) [0 ..< n])"
  using assms by (intro columns_ok) simp

lemma map_VFloatList_columns:
  "map VFloatList (map (\<lambda>c. map (\<lambda>i. at2 a i c) [0 ..< nrows a]) cs) = map (spec_column a) cs"
  by (simp add: spec_column_def)

lemma add_Distance:
  "add_meld_restraint (DistanceRestraint r) alpha t (tr, f) =
     (Inr (n_restraints f), track (DistanceRestraint r) tr, register (DistanceRestraint r) alpha t f)"
  by (simp add: add_meld_restraint_def addDistanceRestraint_def add_restraint_def register_def Let_def)

lemma add_Hyperbolic:
  "add_meld_restraint (HyperbolicDistanceRestraint r) alpha t (tr, f) =
     (Inr (n_restraints f), track (HyperbolicDistanceRestraint r) tr,
      register (HyperbolicDistanceRestraint r) alpha t f)"
  by (simp add: add_meld_restraint_def addHyperbolicDistanceRestraint_def add_restraint_def register_def Let_def)

lemma add_Torsion:
  "add_meld_restraint (TorsionRestraint r) alpha t (tr, f) =
     (Inr (n_restraints f), track (TorsionRestraint r) tr, register (TorsionRestraint r) alpha t f)"
  by (simp add: add_meld_restraint_def addTorsionRestraint_def add_restraint_def register_def Let_def)

lemma add_DistProfile:
  assumes "4 \<le> ncols (dist_prof_spline_params r)"
  shows "add_meld_restraint (DistProfileRestraint r) alpha t (tr, f) =
     (Inr (n_restraints f), track (DistProfileRestraint r) tr, register (DistProfileRestraint r) alpha t f)"
proof -
  have c: "columns (dist_prof_spline_params r) [0, 1, 2, 3]
             = Inr (map (\<lambda>c. map (\<lambda>i. at2 (dist_prof_spline_params r) i c)
                               [0 ..< nrows (dist_prof_spline_params r)]) [0 ..< 4])"
    using columns_spec[OF assms] by (simp only: upt_4)
  show ?thesis
    by (simp only: add_meld_restraint_def Let_def prod.case restraint.case c sum.case)
       (simp add: spec_column_def[abs_def] comp_def addDistProfileRestraint_def add_restraint_def register_def
             del: upt_Suc)
qed

lemma add_TorsProfile:
  assumes "16 \<le> ncols (tors_prof_spline_params r)"
  shows "add_meld_restraint (TorsProfileRestraint r) alpha t (tr, f) =
     (Inr (n_restraints f), track (TorsProfileRestraint r) tr, register (TorsProfileRestraint r) alpha t f)"
proof -
  have c: "columns (tors_prof_spline_params r) [0, 1, 2, 3, 4, 5, 6, 7, 8, 9, 10, 11, 12, 13, 14, 15]
             = Inr (map (\<lambda>c. map (\<lambda>i. at2 (tors_prof_spline_params r) i c)
                               [0 ..< nrows (tors_prof_spline_params r)]) [0 ..< 16])"
    using columns_spec[OF assms] by (simp only: upt_16)
  show ?thesis
    by (simp only: add_meld_restraint_def Let_def prod.case restraint.case c sum.case)
       (simp add: spec_column_def[abs_def] comp_def addTorsProfileRestraint_def add_restraint_def register_def
             del: upt_Suc)
qed

lemma add_GMM:
  assumes "well_shaped (GMMDistanceRestraint r)"
  shows "add_meld_restraint (GMMDistanceRestraint r) alpha t (tr, f) =
     (Inr (n_restraints f), track (GMMDistanceRestraint r) tr, register (GMMDistanceRestraint r) alpha t f)"
proof -
  have c: "setup_precisions (gmm_precisions r) (gmm_n_distances r) (gmm_n_components r)
             = Inr (spec_diag (gmm_precisions r) (nat (gmm_n_components r)) (nat (gmm_n_distances r)),
                    spec_offdiag (gmm_precisions r) (nat (gmm_n_components r)) (nat (gmm_n_distances r)))"
    using assms by (intro setup_precisions_ok) simp
  show ?thesis
    unfolding add_meld_restraint_def
    by (simp add: c addGMMRestraint_def add_restraint_def register_def Let_def)
qed

lemma add_meld_restraint_ok:
  assumes "well_shaped rest"
  shows "add_meld_restraint rest alpha t (tr, f) =
           (Inr (n_restraints f), track rest tr, register rest alpha t f)"
  using assms
  by (cases rest) (simp_all add: add_Distance add_Hyperbolic add_Torsion add_DistProfile add_TorsProfile add_GMM)

section \<open>The registration loops of \<open>add_interactions\<close>\<close>

lemma grows_refl: "grows s [] [] [] [] [] s"
  by (simp add: grows_def)

lemma grows_trans:
  assumes "grows s rs1 tg1 eg1 tc1 ec1 s'" and "grows s' rs2 tg2 eg2 tc2 ec2 s''"
  shows "grows s (rs1 @ rs2) (tg1 @ tg2) (eg1 @ eg2) (tc1 @ tc2) (ec1 @ ec2) s''"
  using assms by (simp add: grows_def Let_def)

lemma grows_register:
  assumes "well_shaped r"
  shows "grows (tr, f) [r] [] [] [] [] (track r tr, register r 0 0 f)"
  using assms by (cases r) (simp_all add: grows_def register_def add_restraint_def creation_call_def)

lemma grows_addGroup:
  "grows (tr, f) [] [x] [(idx, n)] [] [] (tr\<lparr>groups := groups tr @ [x]\<rparr>, snd (addGroup idx n f))"
  by (simp add: grows_def addGroup_def)

lemma grows_addCollection:
  "grows (tr, f) [] [] [] [x] [(idx, n)] (tr\<lparr>collections := collections tr @ [x]\<rparr>, snd (addCollection idx n f))"
  by (simp add: grows_def addCollection_def)

lemma grows_n_restraints: "grows (tr, f) rs tg eg tc ec (tr', f') \<Longrightarrow> n_restraints f' = n_restraints f + length rs"
  by (simp add: grows_def)

lemma grows_groups_f: "grows (tr, f) rs tg eg tc ec (tr', f') \<Longrightarrow> groups_f f' = groups_f f @ eg"
  by (simp add: grows_def)

lemma upt_add_Suc: "[n ..< Suc (n + k)] = n # [Suc n ..< Suc (n + k)]"
  by (simp add: upt_conv_Cons)

lemma group_restraints_loop:
  assumes "\<forall>r\<in>set rs. well_shaped r"
  shows "\<exists>tr' f'. for_loop rs group_restraints_body (tr, f, idxs)
             = (Inr (), tr', f', idxs @ [n_restraints f ..< n_restraints f + length rs])
           \<and> grows (tr, f) rs [] [] [] [] (tr', f')"
  using assms
proof (induction rs arbitrary: tr f idxs)
  case Nil
  then show ?case by (simp add: grows_refl)
next
  case (Cons r rs)
  let ?tr1 = "track r tr" and ?f1 = "register r 0 0 f"
  have step: "group_restraints_body r (tr, f, idxs) = (Inr (), ?tr1, ?f1, idxs @ [n_restraints f])"
    using Cons.prems by (simp add: group_restraints_body_def add_meld_restraint_ok)
  have g1: "grows (tr, f) [r] [] [] [] [] (?tr1, ?f1)"
    using Cons.prems by (simp add: grows_register)
  from Cons.IH[of ?tr1 ?f1 "idxs @ [n_restraints f]"] Cons.prems
  obtain tr' f' where
    loop: "for_loop rs group_restraints_body (?tr1, ?f1, idxs @ [n_restraints f])
             = (Inr (), tr', f', (idxs @ [n_restraints f]) @ [n_restraints ?f1 ..< n_restraints ?f1 + length rs])"
    and g2: "grows (?tr1, ?f1) rs [] [] [] [] (tr', f')"
    by auto
  have n1: "n_restraints ?f1 = Suc (n_restraints f)"
    using grows_n_restraints[OF g1] by simp
  have "for_loop (r # rs) group_restraints_body (tr, f, idxs)
          = (Inr (), tr', f', idxs @ [n_restraints f ..< n_restraints f + length (r # rs)])"
    by (simp add: step loop n1 upt_add_Suc del: upt_Suc)
  moreover have "grows (tr, f) (r # rs) [] [] [] [] (tr', f')"
    using grows_trans[OF g1 g2] by simp
  ultimately show ?case by blast
qed

lemma grows_collections_f: "grows (tr, f) rs tg eg tc ec (tr', f') \<Longrightarrow> collections_f f' = collections_f f @ ec"
  by (simp add: grows_def)

lemma coll_groups_step:
  assumes "\<forall>r\<in>set (group_restraints grp). well_shaped r"
  shows "\<exists>tr' f'. coll_groups_body pm st grp (tr, f, gidx, gv)
             = (Inr (), tr', f', gidx @ [length (groups_f f)], Some grp)
           \<and> grows (tr, f) (group_restraints grp) [Some grp]
                [([n_restraints f ..< n_restraints f + length (group_restraints grp)],
                  handle_num_active pm (group_num_active grp) st)] [] [] (tr', f')"
proof -
  let ?idx = "[n_restraints f ..< n_restraints f + length (group_restraints grp)]"
  let ?na = "handle_num_active pm (group_num_active grp) st"
  from group_restraints_loop[OF assms, of tr f "[]"]
  obtain tr1 f1 where
    loop: "for_loop (group_restraints grp) group_restraints_body (tr, f, []) = (Inr (), tr1, f1, ?idx)"
    and g1: "grows (tr, f) (group_restraints grp) [] [] [] [] (tr1, f1)"
    by auto
  have gf: "groups_f f1 = groups_f f"
    using grows_groups_f[OF g1] by simp
  have g2: "grows (tr1, f1) [] [Some grp] [(?idx, ?na)] [] []
              (tr1\<lparr>groups := groups tr1 @ [Some grp]\<rparr>, snd (addGroup ?idx ?na f1))"
    by (rule grows_addGroup)
  have "coll_groups_body pm st grp (tr, f, gidx, gv)
          = (Inr (), tr1\<lparr>groups := groups tr1 @ [Some grp]\<rparr>, snd (addGroup ?idx ?na f1),
             gidx @ [length (groups_f f)], Some grp)"
    by (simp add: coll_groups_body_def loop addGroup_def gf Let_def)
  moreover have "grows (tr, f) (group_restraints grp) [Some grp] [(?idx, ?na)] [] []
                   (tr1\<lparr>groups := groups tr1 @ [Some grp]\<rparr>, snd (addGroup ?idx ?na f1))"
    using grows_trans[OF g1 g2] by simp
  ultimately show ?thesis by blast
qed

lemma coll_groups_loop:
  assumes "\<forall>g\<in>set gs. \<forall>r\<in>set (group_restraints g). well_shaped r"
  shows "\<exists>tr' f'. for_loop gs (coll_groups_body pm st) (tr, f, gidx, gv)
             = (Inr (), tr', f', gidx @ [length (groups_f f) ..< length (groups_f f) + length gs],
                if gs = [] then gv else Some (last gs))
           \<and> grows (tr, f) (concat (map group_restraints gs)) (map Some gs)
                (group_entries pm st (n_restraints f) gs) [] [] (tr', f')"
  using assms
proof (induction gs arbitrary: tr f gidx gv)
  case Nil
  then show ?case by (simp add: grows_refl)
next
  case (Cons g gs)
  let ?e = "([n_restraints f ..< n_restraints f + length (group_restraints g)],
             handle_num_active pm (group_num_active g) st)"
  from coll_groups_step[of g pm st tr f gidx gv] Cons.prems
  obtain tr1 f1 where
    step: "coll_groups_body pm st g (tr, f, gidx, gv) = (Inr (), tr1, f1, gidx @ [length (groups_f f)], Some g)"
    and g1: "grows (tr, f) (group_restraints g) [Some g] [?e] [] [] (tr1, f1)"
    by auto
  have n1: "n_restraints f1 = n_restraints f + length (group_restraints g)"
    using grows_n_restraints[OF g1] .
  have m1: "length (groups_f f1) = Suc (length (groups_f f))"
    using grows_groups_f[OF g1] by simp
  from Cons.IH[of tr1 f1 "gidx @ [length (groups_f f)]" "Some g"] Cons.prems
  obtain tr' f' where
    loop: "for_loop gs (coll_groups_body pm st) (tr1, f1, gidx @ [length (groups_f f)], Some g)
             = (Inr (), tr', f',
                (gidx @ [length (groups_f f)]) @ [length (groups_f f1) ..< length (groups_f f1) + length gs],
                if gs = [] then Some g else Some (last gs))"
    and g2: "grows (tr1, f1) (concat (map group_restraints gs)) (map Some gs)
               (group_entries pm st (n_restraints f1) gs) [] [] (tr', f')"
    by auto
  have "for_loop (g # gs) (coll_groups_body pm st) (tr, f, gidx, gv)
          = (Inr (), tr', f', gidx @ [length (groups_f f) ..< length (groups_f f) + length (g # gs)],
             if g # gs = [] then gv else Some (last (g # gs)))"
    by (simp add: step loop m1 upt_add_Suc del: upt_Suc)
  moreover have "grows (tr, f) (concat (map group_restraints (g # gs))) (map Some (g # gs))
                   (group_entries pm st (n_restraints f) (g # gs)) [] [] (tr', f')"
    using grows_trans[OF g1 g2] by (simp add: n1)
  ultimately show ?case by blast
qed

lemma selective_on_step:
  assumes "\<forall>g\<in>set (coll_groups c). \<forall>r\<in>set (group_restraints g). well_shaped r"
    and "group_after gv c \<noteq> None"
  shows "\<exists>tr' f'. selective_on_body pm st c (tr, f, gv) = (Inr (), tr', f', group_after gv c)
           \<and> grows (tr, f) (concat (map group_restraints (coll_groups c))) (map Some (coll_groups c))
                (group_entries pm st (n_restraints f) (coll_groups c))
                [Some c]
                [([length (groups_f f) ..< length (groups_f f) + length (coll_groups c)],
                  handle_num_active pm (group_num_active (the (group_after gv c))) st)]
                (tr', f')"
proof -
  let ?gidx = "[length (groups_f f) ..< length (groups_f f) + length (coll_groups c)]"
  from assms(2) obtain g where g: "group_after gv c = Some g" by auto
  let ?na = "handle_num_active pm (group_num_active g) st"
  from coll_groups_loop[OF assms(1), of pm st tr f "[]" gv]
  obtain tr1 f1 where
    loop: "for_loop (coll_groups c) (coll_groups_body pm st) (tr, f, [], gv)
             = (Inr (), tr1, f1, ?gidx, group_after gv c)"
    and g1: "grows (tr, f) (concat (map group_restraints (coll_groups c))) (map Some (coll_groups c))
               (group_entries pm st (n_restraints f) (coll_groups c)) [] [] (tr1, f1)"
    by (auto simp: group_after_def)
  have g2: "grows (tr1, f1) [] [] [] [Some c] [(?gidx, ?na)]
              (tr1\<lparr>collections := collections tr1 @ [Some c]\<rparr>, snd (addCollection ?gidx ?na f1))"
    by (rule grows_addCollection)
  have "selective_on_body pm st c (tr, f, gv)
          = (Inr (), tr1\<lparr>collections := collections tr1 @ [Some c]\<rparr>, snd (addCollection ?gidx ?na f1),
             group_after gv c)"
    by (simp add: selective_on_body_def loop g addCollection_def Let_def)
  moreover have "grows (tr, f) (concat (map group_restraints (coll_groups c))) (map Some (coll_groups c))
                   (group_entries pm st (n_restraints f) (coll_groups c)) [Some c] [(?gidx, ?na)]
                   (tr1\<lparr>collections := collections tr1 @ [Some c]\<rparr>, snd (addCollection ?gidx ?na f1))"
    using grows_trans[OF g1 g2] by simp
  ultimately show ?thesis using g by auto
qed

lemma group_entries_append:
  "group_entries pm st n (gs @ hs)
     = group_entries pm st n gs @ group_entries pm st (n + length (concat (map group_restraints gs))) hs"
  by (induction gs arbitrary: n) (simp_all add: add.assoc)

lemma selective_on_loop:
  assumes "\<forall>c\<in>set cs. \<forall>g\<in>set (coll_groups c). \<forall>r\<in>set (group_restraints g). well_shaped r"
    and "group_bound gv cs"
  shows "\<exists>tr' f' gv'. for_loop cs (selective_on_body pm st) (tr, f, gv) = (Inr (), tr', f', gv')
           \<and> grows (tr, f) (concat (map group_restraints (concat (map coll_groups cs))))
                (map Some (concat (map coll_groups cs)))
                (group_entries pm st (n_restraints f) (concat (map coll_groups cs)))
                (map Some cs)
                (coll_entries pm st (length (groups_f f)) gv cs)
                (tr', f')"
  using assms
proof (induction cs arbitrary: tr f gv)
  case Nil
  then show ?case by (simp add: grows_refl)
next
  case (Cons c cs)
  let ?rs = "concat (map group_restraints (coll_groups c))"
  let ?ce = "([length (groups_f f) ..< length (groups_f f) + length (coll_groups c)],
              handle_num_active pm (group_num_active (the (group_after gv c))) st)"
  from Cons.prems have b1: "group_after gv c \<noteq> None" and b2: "group_bound (group_after gv c) cs"
    by simp_all
  from selective_on_step[of c gv pm st tr f] Cons.prems(1) b1
  obtain tr1 f1 where
    step: "selective_on_body pm st c (tr, f, gv) = (Inr (), tr1, f1, group_after gv c)"
    and g1: "grows (tr, f) ?rs (map Some (coll_groups c))
               (group_entries pm st (n_restraints f) (coll_groups c)) [Some c] [?ce] (tr1, f1)"
    by auto
  have n1: "n_restraints f1 = n_restraints f + length ?rs"
    using grows_n_restraints[OF g1] .
  have m1: "length (groups_f f1) = length (groups_f f) + length (coll_groups c)"
  proof -
    have "length (group_entries pm st n gs) = length gs" for n gs
      by (induction gs arbitrary: n) simp_all
    then show ?thesis using grows_groups_f[OF g1] by simp
  qed
  from Cons.IH[of "group_after gv c" tr1 f1] Cons.prems(1) b2
  obtain tr' f' gv' where
    loop: "for_loop cs (selective_on_body pm st) (tr1, f1, group_after gv c) = (Inr (), tr', f', gv')"
    and g2: "grows (tr1, f1) (concat (map group_restraints (concat (map coll_groups cs))))
               (map Some (concat (map coll_groups cs)))
               (group_entries pm st (n_restraints f1) (concat (map coll_groups cs)))
               (map Some cs)
               (coll_entries pm st (length (groups_f f1)) (group_after gv c) cs)
               (tr', f')"
    by auto
  have "for_loop (c # cs) (selective_on_body pm st) (tr, f, gv) = (Inr (), tr', f', gv')"
    by (simp add: step loop)
  moreover have "grows (tr, f) (concat (map group_restraints (concat (map coll_groups (c # cs)))))
                   (map Some (concat (map coll_groups (c # cs))))
                   (group_entries pm st (n_restraints f) (concat (map coll_groups (c # cs))))
                   (map Some (c # cs))
                   (coll_entries pm st (length (groups_f f)) gv (c # cs))
                   (tr', f')"
    using grows_trans[OF g1 g2] by (simp add: n1 m1 group_entries_append)
  ultimately show ?case by blast
qed

lemma always_on_loop:
  assumes "\<forall>r\<in>set rs. well_shaped r"
  shows "\<exists>tr' f'. for_loop rs always_on_body (tr, f, gl)
             = (Inr (), tr', f', gl @ [length (groups_f f) ..< length (groups_f f) + length rs])
           \<and> grows (tr, f) rs (replicate (length rs) None)
                (map (\<lambda>i. ([i], 1)) [n_restraints f ..< n_restraints f + length rs]) [] [] (tr', f')"
  using assms
proof (induction rs arbitrary: tr f gl)
  case Nil
  then show ?case by (simp add: grows_refl)
next
  case (Cons r rs)
  let ?tr1 = "track r tr" and ?f1 = "register r 0 0 f"
  let ?tr2 = "?tr1\<lparr>groups := groups ?tr1 @ [None]\<rparr>" and ?f2 = "snd (addGroup [n_restraints f] 1 ?f1)"
  have w: "well_shaped r" using Cons.prems by simp
  have g1: "grows (tr, f) [r] [] [] [] [] (?tr1, ?f1)"
    using w by (rule grows_register)
  have gf: "groups_f ?f1 = groups_f f"
    using grows_groups_f[OF g1] by simp
  have g2: "grows (?tr1, ?f1) [] [None] [([n_restraints f], 1)] [] [] (?tr2, ?f2)"
    by (rule grows_addGroup)
  have g12: "grows (tr, f) [r] [None] [([n_restraints f], 1)] [] [] (?tr2, ?f2)"
    using grows_trans[OF g1 g2] by simp
  have step: "always_on_body r (tr, f, gl) = (Inr (), ?tr2, ?f2, gl @ [length (groups_f f)])"
    using w by (simp add: always_on_body_def add_meld_restraint_ok addGroup_def gf Let_def)
  have n2: "n_restraints ?f2 = Suc (n_restraints f)"
    using grows_n_restraints[OF g12] by simp
  have m2: "length (groups_f ?f2) = Suc (length (groups_f f))"
    using grows_groups_f[OF g12] by simp
  from Cons.IH[of ?tr2 ?f2 "gl @ [length (groups_f f)]"] Cons.prems
  obtain tr' f' where
    loop: "for_loop rs always_on_body (?tr2, ?f2, gl @ [length (groups_f f)])
             = (Inr (), tr', f',
                (gl @ [length (groups_f f)]) @ [length (groups_f ?f2) ..< length (groups_f ?f2) + length rs])"
    and g3: "grows (?tr2, ?f2) rs (replicate (length rs) None)
               (map (\<lambda>i. ([i], 1)) [n_restraints ?f2 ..< n_restraints ?f2 + length rs]) [] [] (tr', f')"
    by auto
  have "for_loop (r # rs) always_on_body (tr, f, gl)
          = (Inr (), tr', f', gl @ [length (groups_f f) ..< length (groups_f f) + length (r # rs)])"
    by (simp only: for_loop.simps step prod.case sum.case loop m2)
       (simp add: upt_add_Suc del: upt_Suc)
  moreover have "grows (tr, f) (r # rs) (replicate (length (r # rs)) None)
                   (map (\<lambda>i. ([i], 1)) [n_restraints f ..< n_restraints f + length (r # rs)]) [] [] (tr', f')"
    using grows_trans[OF g12 g3] by (simp add: n2 upt_add_Suc del: upt_Suc)
  ultimately show ?case by blast
qed

lemma add_always_on_ok:
  assumes "\<forall>r\<in>set rs. well_shaped r"
  shows "\<exists>tr' f'. add_always_on rs (tr, f) = (Inr (), tr', f')
           \<and> grows (tr, f) rs (replicate (length rs) None)
                (map (\<lambda>i. ([i], 1)) [n_restraints f ..< n_restraints f + length rs])
                (if rs = [] then [] else [None])
                (if rs = [] then []
                 else [([length (groups_f f) ..< length (groups_f f) + length rs], int (length rs))])
                (tr', f')"
proof (cases "rs = []")
  case True
  then show ?thesis by (simp add: add_always_on_def grows_refl)
next
  case False
  let ?gl = "[length (groups_f f) ..< length (groups_f f) + length rs]"
  from always_on_loop[OF assms, of tr f "[]"]
  obtain tr1 f1 where
    loop: "for_loop rs always_on_body (tr, f, []) = (Inr (), tr1, f1, ?gl)"
    and g1: "grows (tr, f) rs (replicate (length rs) None)
               (map (\<lambda>i. ([i], 1)) [n_restraints f ..< n_restraints f + length rs]) [] [] (tr1, f1)"
    by auto
  have g2: "grows (tr1, f1) [] [] [] [None] [(?gl, int (length rs))]
              (tr1\<lparr>collections := collections tr1 @ [None]\<rparr>, snd (addCollection ?gl (int (length rs)) f1))"
    by (rule grows_addCollection)
  have "add_always_on rs (tr, f)
          = (Inr (), tr1\<lparr>collections := collections tr1 @ [None]\<rparr>,
             snd (addCollection ?gl (int (length rs)) f1))"
    using False by (simp add: add_always_on_def loop addCollection_def Let_def)
  moreover have "grows (tr, f) rs (replicate (length rs) None)
                   (map (\<lambda>i. ([i], 1)) [n_restraints f ..< n_restraints f + length rs])
                   [None] [(?gl, int (length rs))]
                   (tr1\<lparr>collections := collections tr1 @ [None]\<rparr>,
                    snd (addCollection ?gl (int (length rs)) f1))"
    using grows_trans[OF g1 g2] by simp
  ultimately show ?thesis using False by auto
qed

lemma length_group_entries: "length (group_entries pm st n gs) = length gs"
  by (induction gs arbitrary: n) simp_all

lemma add_interactions_ok:
  assumes "active self" and "registrable self"
  shows "\<exists>tr' f'. add_interactions self st sys topo
             = (Inr (sys @ [MeldForceRef]), self\<lparr>tracker := tr', force := Some f'\<rparr>)
           \<and> grows (tracker self, MeldForce) (registration_order self)
                (tracker_groups_after self) (engine_groups_after self st)
                (tracker_collections_after self) (engine_collections_after self st) (tr', f')"
proof -
  let ?ao = "always_on self" and ?pm = "param_manager self"
  have ws1: "\<forall>r\<in>set ?ao. well_shaped r"
    and ws2: "\<forall>c\<in>set (selective_on self). \<forall>g\<in>set (coll_groups c). \<forall>r\<in>set (group_restraints g). well_shaped r"
    and gb: "group_bound None (selective_on self)"
    using assms(2) by (auto simp: registrable_def registration_order_def all_groups_def list_all_iff)
  have n0: "n_restraints MeldForce = 0" and m0: "groups_f MeldForce = []"
    by (simp_all add: MeldForce_def)
  from add_always_on_ok[OF ws1, of "tracker self" MeldForce]
  obtain tr1 f1 where
    a1: "add_always_on ?ao (tracker self, MeldForce) = (Inr (), tr1, f1)"
    and g1: "grows (tracker self, MeldForce) ?ao (replicate (length ?ao) None)
               (map (\<lambda>i. ([i], 1)) [0 ..< length ?ao])
               (if ?ao = [] then [] else [None])
               (if ?ao = [] then [] else [([0 ..< length ?ao], int (length ?ao))])
               (tr1, f1)"
    by (auto simp: n0 m0 cong: if_cong)
  have n1: "n_restraints f1 = length ?ao"
    using grows_n_restraints[OF g1] by (simp add: n0)
  have m1: "length (groups_f f1) = length ?ao"
    using grows_groups_f[OF g1] by (simp add: m0)
  from selective_on_loop[OF ws2 gb, of ?pm st tr1 f1]
  obtain tr2 f2 gv2 where
    a2: "for_loop (selective_on self) (selective_on_body ?pm st) (tr1, f1, None) = (Inr (), tr2, f2, gv2)"
    and g2: "grows (tr1, f1) (concat (map group_restraints (all_groups self)))
               (map Some (all_groups self))
               (group_entries ?pm st (length ?ao) (all_groups self))
               (map Some (selective_on self))
               (coll_entries ?pm st (length ?ao) None (selective_on self))
               (tr2, f2)"
    by (auto simp: n1 m1 all_groups_def)
  have "add_interactions self st sys topo
          = (Inr (sys @ [MeldForceRef]), self\<lparr>tracker := tr2, force := Some f2\<rparr>)"
    using assms(1) by (simp add: add_interactions_def a1 a2)
  moreover have "grows (tracker self, MeldForce) (registration_order self)
                   (tracker_groups_after self) (engine_groups_after self st)
                   (tracker_collections_after self) (engine_collections_after self st) (tr2, f2)"
    using grows_trans[OF g1 g2]
    by (simp add: registration_order_def tracker_groups_after_def engine_groups_after_def
                  tracker_collections_after_def engine_collections_after_def)
  ultimately show ?thesis by blast
qed

section \<open>The update loops\<close>

lemma with_force_Some: "with_force m (Some f) = (case m f of (r, f') \<Rightarrow> (r, Some f'))"
  by (simp add: with_force_def)

lemma take_Suc_update: "n < length l \<Longrightarrow> take (Suc n) (l[n := a]) = take n l @ [a]"
  by (simp add: take_Suc_conv_app_nth)

lemma modify_loop:
  assumes body: "\<And>i x. x \<in> set xs \<Longrightarrow> body (i, x) = with_force (modify_restraint K i (mk x))"
    and len: "n + length xs \<le> length (stored f K)"
  shows "for_loop (enumerate n xs) body (Some f)
           = (Inr (), Some (f\<lparr>stored := (stored f)(K := take n (stored f K) @ map mk xs
                                                       @ drop (n + length xs) (stored f K)),
                              calls := calls f @ map (\<lambda>(i, x). Call (Modify K) (VInt (int i) # mk x))
                                                     (enumerate n xs)\<rparr>))"
  using assms
proof (induction xs arbitrary: n f)
  case Nil
  then show ?case by simp
next
  case (Cons x xs)
  let ?f1 = "f\<lparr>stored := (stored f)(K := (stored f K)[n := mk x]),
               calls := calls f @ [Call (Modify K) (VInt (int n) # mk x)]\<rparr>"
  have nlt: "n < length (stored f K)" using Cons.prems(2) by simp
  have step: "body (n, x) (Some f) = (Inr (), Some ?f1)"
    using nlt by (simp add: Cons.prems(1) with_force_Some modify_restraint_def)
  have len1: "Suc n + length xs \<le> length (stored ?f1 K)"
    using Cons.prems(2) by simp
  have b1: "\<And>i y. y \<in> set xs \<Longrightarrow> body (i, y) = with_force (modify_restraint K i (mk y))"
    using Cons.prems(1) by simp
  let ?M = "map (\<lambda>(i, x). Call (Modify K) (VInt (int i) # mk x)) (enumerate (Suc n) xs)"
  let ?f2 = "?f1\<lparr>stored := (stored ?f1)(K := take (Suc n) (stored ?f1 K) @ map mk xs
                                                 @ drop (Suc n + length xs) (stored ?f1 K)),
                 calls := calls ?f1 @ ?M\<rparr>"
  have t: "take (Suc n) ((stored f K)[n := mk x]) = take n (stored f K) @ [mk x]"
    using nlt by (rule take_Suc_update)
  have d: "drop (Suc (n + length xs)) ((stored f K)[n := mk x]) = drop (Suc (n + length xs)) (stored f K)"
    by (simp add: drop_update_cancel)
  have eq: "?f2 = f\<lparr>stored := (stored f)(K := take n (stored f K) @ map mk (x # xs)
                                                  @ drop (n + length (x # xs)) (stored f K)),
                       calls := calls f @ map (\<lambda>(i, x). Call (Modify K) (VInt (int i) # mk x))
                                              (enumerate n (x # xs))\<rparr>"
    by (simp add: t d)
  have "for_loop (enumerate n (x # xs)) body (Some f) = for_loop (enumerate (Suc n) xs) body (Some ?f1)"
    by (simp add: step)
  also have "\<dots> = (Inr (), Some ?f2)"
    by (rule Cons.IH[OF b1 len1])
  finally show ?case
    unfolding eq .
qed

lemma update_distance_body:
  "update_distance alpha t (i, d) = with_force (modify_restraint Distance i (spec_params (DistanceRestraint d) alpha t))"
  by (simp add: update_distance_def modifyDistanceRestraint_def Let_def)

lemma update_hyperbolic_body:
  "update_hyperbolic alpha t (i, d)
     = with_force (modify_restraint HyperbolicDistance i (spec_params (HyperbolicDistanceRestraint d) alpha t))"
  by (simp add: update_hyperbolic_def modifyHyperbolicDistanceRestraint_def Let_def)

lemma update_torsion_body:
  "update_torsion alpha t (i, d) = with_force (modify_restraint Torsion i (spec_params (TorsionRestraint d) alpha t))"
  by (simp add: update_torsion_def modifyTorsionRestraint_def Let_def)

lemma update_dist_prof_body:
  assumes "4 \<le> ncols (dist_prof_spline_params r)"
  shows "update_dist_prof alpha t (i, r)
           = with_force (modify_restraint DistProfile i (spec_params (DistProfileRestraint r) alpha t))"
proof -
  have c: "columns (dist_prof_spline_params r) [0, 1, 2, 3]
             = Inr (map (\<lambda>c. map (\<lambda>i. at2 (dist_prof_spline_params r) i c)
                               [0 ..< nrows (dist_prof_spline_params r)]) [0 ..< 4])"
    using columns_spec[OF assms] by (simp only: upt_4)
  show ?thesis
    by (simp only: update_dist_prof_def Let_def prod.case c sum.case)
       (simp add: spec_column_def[abs_def] comp_def modifyDistProfileRestraint_def del: upt_Suc)
qed

lemma update_tors_prof_body:
  assumes "16 \<le> ncols (tors_prof_spline_params r)"
  shows "update_tors_prof alpha t (i, r)
           = with_force (modify_restraint TorsProfile i (spec_params (TorsProfileRestraint r) alpha t))"
proof -
  have c: "columns (tors_prof_spline_params r) [0, 1, 2, 3, 4, 5, 6, 7, 8, 9, 10, 11, 12, 13, 14, 15]
             = Inr (map (\<lambda>c. map (\<lambda>i. at2 (tors_prof_spline_params r) i c)
                               [0 ..< nrows (tors_prof_spline_params r)]) [0 ..< 16])"
    using columns_spec[OF assms] by (simp only: upt_16)
  show ?thesis
    by (simp only: update_tors_prof_def Let_def prod.case c sum.case)
       (simp add: spec_column_def[abs_def] comp_def modifyTorsProfileRestraint_def del: upt_Suc)
qed

lemma update_gmm_body:
  assumes "well_shaped (GMMDistanceRestraint r)"
  shows "update_gmm alpha t (i, r)
           = with_force (modify_restraint GMM i (spec_params (GMMDistanceRestraint r) alpha t))"
proof -
  have c: "setup_precisions (gmm_precisions r) (gmm_n_distances r) (gmm_n_components r)
             = Inr (spec_diag (gmm_precisions r) (nat (gmm_n_components r)) (nat (gmm_n_distances r)),
                    spec_offdiag (gmm_precisions r) (nat (gmm_n_components r)) (nat (gmm_n_distances r)))"
    using assms by (intro setup_precisions_ok) simp
  show ?thesis
    by (rule ext) (simp add: update_gmm_def Let_def c modifyGMMRestraint_def)
qed

lemma enumerate_map: "enumerate n (map g xs) = map (\<lambda>(i, x). (i, g x)) (enumerate n xs)"
  by (induction xs arbitrary: n) simp_all

lemma refresh_calls_map:
  "refresh_calls K (map C xs) alpha t
     = map (\<lambda>(i, x). Call (Modify K) (VInt (int i) # spec_params (C x) alpha t)) (enumerate 0 xs)"
  by (simp add: refresh_calls_def enumerate_map case_prod_unfold comp_def)

lemma refresh_loop:
  assumes body: "\<And>i x. x \<in> set xs \<Longrightarrow> body (i, x) = with_force (modify_restraint K i (spec_params (C x) alpha t))"
    and len: "length (stored f K) = length xs"
  shows "\<exists>f'. for_loop (enumerate 0 xs) body (Some f) = (Inr (), Some f')
           \<and> stored f' = (stored f)(K := map (\<lambda>r. spec_params r alpha t) (map C xs))
           \<and> calls f' = calls f @ refresh_calls K (map C xs) alpha t
           \<and> n_restraints f' = n_restraints f
           \<and> groups_f f' = groups_f f
           \<and> collections_f f' = collections_f f"
proof -
  have "for_loop (enumerate 0 xs) body (Some f)
          = (Inr (), Some (f\<lparr>stored := (stored f)(K := take 0 (stored f K)
                                        @ map (\<lambda>x. spec_params (C x) alpha t) xs
                                        @ drop (0 + length xs) (stored f K)),
                             calls := calls f @ map (\<lambda>(i, x). Call (Modify K) (VInt (int i) # spec_params (C x) alpha t))
                                                    (enumerate 0 xs)\<rparr>))"
    using body len by (intro modify_loop) simp_all
  then show ?thesis
    by (simp add: len refresh_calls_map comp_def)
qed

lemma update_restraints_ok:
  assumes "list_all (\<lambda>K. length (stored f K) = length (tracked tr K) \<and> list_all well_shaped (tracked tr K)) all_kinds"
  shows "\<exists>f'. update_restraints tr alpha t (Some f) = (Inr (), Some f')
           \<and> list_all (\<lambda>K. stored f' K = map (\<lambda>r. spec_params r alpha t) (tracked tr K)) all_kinds
           \<and> calls f' = calls f @ concat (map (\<lambda>K. refresh_calls K (tracked tr K) alpha t) all_kinds)
           \<and> n_restraints f' = n_restraints f
           \<and> groups_f f' = groups_f f
           \<and> collections_f f' = collections_f f"
proof -
  from assms have
    l1: "length (stored f Distance) = length (distance_restraints tr)" and
    l2: "length (stored f HyperbolicDistance) = length (hyperbolic_distance_restraints tr)" and
    l3: "length (stored f Torsion) = length (torsion_restraints tr)" and
    l4: "length (stored f DistProfile) = length (dist_prof_restraints tr)" and
    l5: "length (stored f TorsProfile) = length (torsion_profile_restraints tr)" and
    l6: "length (stored f GMM) = length (gmm_restraints tr)" and
    w4: "\<forall>r\<in>set (dist_prof_restraints tr). 4 \<le> ncols (dist_prof_spline_params r)" and
    w5: "\<forall>r\<in>set (torsion_profile_restraints tr). 16 \<le> ncols (tors_prof_spline_params r)" and
    w6: "\<forall>r\<in>set (gmm_restraints tr). well_shaped (GMMDistanceRestraint r)"
    by (simp_all add: all_kinds_def list_all_iff)
  from refresh_loop[of "distance_restraints tr" "update_distance alpha t" Distance DistanceRestraint alpha t f]
  obtain f1 where
    r1: "for_loop (enumerate 0 (distance_restraints tr)) (update_distance alpha t) (Some f) = (Inr (), Some f1)"
    and s1: "stored f1 = (stored f)(Distance := map (\<lambda>r. spec_params r alpha t) (tracked tr Distance))"
    and c1: "calls f1 = calls f @ refresh_calls Distance (tracked tr Distance) alpha t"
    and o1: "n_restraints f1 = n_restraints f" "groups_f f1 = groups_f f" "collections_f f1 = collections_f f"
    using l1 by (auto simp: update_distance_body)
  from refresh_loop[of "hyperbolic_distance_restraints tr" "update_hyperbolic alpha t" HyperbolicDistance
                       HyperbolicDistanceRestraint alpha t f1]
  obtain f2 where
    r2: "for_loop (enumerate 0 (hyperbolic_distance_restraints tr)) (update_hyperbolic alpha t) (Some f1) = (Inr (), Some f2)"
    and s2: "stored f2 = (stored f1)(HyperbolicDistance := map (\<lambda>r. spec_params r alpha t) (tracked tr HyperbolicDistance))"
    and c2: "calls f2 = calls f1 @ refresh_calls HyperbolicDistance (tracked tr HyperbolicDistance) alpha t"
    and o2: "n_restraints f2 = n_restraints f1" "groups_f f2 = groups_f f1" "collections_f f2 = collections_f f1"
    using l2 s1 by (auto simp: update_hyperbolic_body)
  from refresh_loop[of "torsion_restraints tr" "update_torsion alpha t" Torsion TorsionRestraint alpha t f2]
  obtain f3 where
    r3: "for_loop (enumerate 0 (torsion_restraints tr)) (update_torsion alpha t) (Some f2) = (Inr (), Some f3)"
    and s3: "stored f3 = (stored f2)(Torsion := map (\<lambda>r. spec_params r alpha t) (tracked tr Torsion))"
    and c3: "calls f3 = calls f2 @ refresh_calls Torsion (tracked tr Torsion) alpha t"
    and o3: "n_restraints f3 = n_restraints f2" "groups_f f3 = groups_f f2" "collections_f f3 = collections_f f2"
    using l3 s1 s2 by (auto simp: update_torsion_body)
  from refresh_loop[of "dist_prof_restraints tr" "update_dist_prof alpha t" DistProfile DistProfileRestraint alpha t f3]
  obtain f4 where
    r4: "for_loop (enumerate 0 (dist_prof_restraints tr)) (update_dist_prof alpha t) (Some f3) = (Inr (), Some f4)"
    and s4: "stored f4 = (stored f3)(DistProfile := map (\<lambda>r. spec_params r alpha t) (tracked tr DistProfile))"
    and c4: "calls f4 = calls f3 @ refresh_calls DistProfile (tracked tr DistProfile) alpha t"
    and o4: "n_restraints f4 = n_restraints f3" "groups_f f4 = groups_f f3" "collections_f f4 = collections_f f3"
    using l4 s1 s2 s3 w4 by (auto simp: update_dist_prof_body)
  from refresh_loop[of "torsion_profile_restraints tr" "update_tors_prof alpha t" TorsProfile TorsProfileRestraint alpha t f4]
  obtain f5 where
    r5: "for_loop (enumerate 0 (torsion_profile_restraints tr)) (update_tors_prof alpha t) (Some f4) = (Inr (), Some f5)"
    and s5: "stored f5 = (stored f4)(TorsProfile := map (\<lambda>r. spec_params r alpha t) (tracked tr TorsProfile))"
    and c5: "calls f5 = calls f4 @ refresh_calls TorsProfile (tracked tr TorsProfile) alpha t"
    and o5: "n_restraints f5 = n_restraints f4" "groups_f f5 = groups_f f4" "collections_f f5 = collections_f f4"
    using l5 s1 s2 s3 s4 w5 by (auto simp: update_tors_prof_body)
  from refresh_loop[of "gmm_restraints tr" "update_gmm alpha t" GMM GMMDistanceRestraint alpha t f5]
  obtain f6 where
    r6: "for_loop (enumerate 0 (gmm_restraints tr)) (update_gmm alpha t) (Some f5) = (Inr (), Some f6)"
    and s6: "stored f6 = (stored f5)(GMM := map (\<lambda>r. spec_params r alpha t) (tracked tr GMM))"
    and c6: "calls f6 = calls f5 @ refresh_calls GMM (tracked tr GMM) alpha t"
    and o6: "n_restraints f6 = n_restraints f5" "groups_f f6 = groups_f f5" "collections_f f6 = collections_f f5"
    using l6 s1 s2 s3 s4 s5 w6 by (auto simp: update_gmm_body)
  have "update_restraints tr alpha t (Some f) = (Inr (), Some f6)"
    by (simp add: update_restraints_def seq_def r1 r2 r3 r4 r5 r6)
  moreover have "list_all (\<lambda>K. stored f6 K = map (\<lambda>r. spec_params r alpha t) (tracked tr K)) all_kinds"
    by (simp add: all_kinds_def s1 s2 s3 s4 s5 s6)
  moreover have "calls f6 = calls f @ concat (map (\<lambda>K. refresh_calls K (tracked tr K) alpha t) all_kinds)"
    by (simp add: all_kinds_def c1 c2 c3 c4 c5 c6)
  ultimately show ?thesis
    using o1 o2 o3 o4 o5 o6 by auto
qed

lemma refreshed_Nil [simp]: "refreshed cnt [] es = []"
  by (simp add: refreshed_def)

lemma refreshed_Cons [simp]:
  "refreshed cnt (x # xs) (e # es) = (case x of None \<Rightarrow> e | Some c \<Rightarrow> (fst e, cnt c)) # refreshed cnt xs es"
  by (simp add: refreshed_def)

lemma refreshed_step:
  assumes "n < length es"
  shows "take n es @ refreshed cnt (x # xs) (drop n es) @ R
           = take (Suc n) (case x of None \<Rightarrow> es | Some c \<Rightarrow> es[n := (fst (es ! n), cnt c)])
             @ refreshed cnt xs (drop (Suc n) (case x of None \<Rightarrow> es | Some c \<Rightarrow> es[n := (fst (es ! n), cnt c)]))
             @ R"
proof -
  have d: "drop n es = es ! n # drop (Suc n) es"
    using assms by (simp add: Cons_nth_drop_Suc)
  show ?thesis
    using assms by (cases x) (simp_all add: d take_Suc_conv_app_nth)
qed

lemma collections_loop:
  assumes "n + length xs \<le> length (collections_f f)"
  shows "\<exists>f'. for_loop (enumerate n xs) (update_collection pm st) (Some f) = (Inr (), Some f')
           \<and> stored f' = stored f \<and> n_restraints f' = n_restraints f \<and> groups_f f' = groups_f f
           \<and> collections_f f'
               = take n (collections_f f)
                 @ refreshed (\<lambda>c. handle_num_active pm (coll_num_active c) st) xs (drop n (collections_f f))
                 @ drop (n + length xs) (collections_f f)"
  using assms
proof (induction xs arbitrary: n f)
  case Nil
  then show ?case by simp
next
  case (Cons x xs)
  let ?cnt = "\<lambda>c. handle_num_active pm (coll_num_active c) st"
  let ?es = "collections_f f"
  let ?es1 = "case x of None \<Rightarrow> ?es | Some c \<Rightarrow> ?es[n := (fst (?es ! n), ?cnt c)]"
  have nlt: "n < length ?es" using Cons.prems by simp
  obtain f1 where
    step: "update_collection pm st (n, x) (Some f) = (Inr (), Some f1)"
    and f1: "stored f1 = stored f" "n_restraints f1 = n_restraints f" "groups_f f1 = groups_f f"
            "collections_f f1 = ?es1"
    using nlt by (cases x) (auto simp: update_collection_def with_force_Some modifyCollectionNumActive_def Let_def)
  have len1: "Suc n + length xs \<le> length (collections_f f1)"
    using Cons.prems f1(4) by (cases x) simp_all
  from Cons.IH[OF len1]
  obtain f' where
    loop: "for_loop (enumerate (Suc n) xs) (update_collection pm st) (Some f1) = (Inr (), Some f')"
    and f': "stored f' = stored f1" "n_restraints f' = n_restraints f1" "groups_f f' = groups_f f1"
            "collections_f f' = take (Suc n) (collections_f f1)
                 @ refreshed ?cnt xs (drop (Suc n) (collections_f f1))
                 @ drop (Suc n + length xs) (collections_f f1)"
    by auto
  have dr: "drop (Suc n + length xs) ?es1 = drop (n + length (x # xs)) ?es"
    by (cases x) (simp_all add: drop_update_cancel)
  have "collections_f f' = take n ?es @ refreshed ?cnt (x # xs) (drop n ?es) @ drop (n + length (x # xs)) ?es"
    unfolding f'(4) f1(4) dr using refreshed_step[OF nlt, of ?cnt x xs] by simp
  moreover have "for_loop (enumerate n (x # xs)) (update_collection pm st) (Some f) = (Inr (), Some f')"
    by (simp add: step loop)
  ultimately show ?case
    using f1 f' by auto
qed

lemma groups_loop:
  assumes "n + length xs \<le> length (groups_f f)"
  shows "\<exists>f'. for_loop (enumerate n xs) (update_group pm st) (Some f) = (Inr (), Some f')
           \<and> stored f' = stored f \<and> n_restraints f' = n_restraints f \<and> collections_f f' = collections_f f
           \<and> groups_f f'
               = take n (groups_f f)
                 @ refreshed (\<lambda>g. handle_num_active pm (group_num_active g) st) xs (drop n (groups_f f))
                 @ drop (n + length xs) (groups_f f)"
  using assms
proof (induction xs arbitrary: n f)
  case Nil
  then show ?case by simp
next
  case (Cons x xs)
  let ?cnt = "\<lambda>g. handle_num_active pm (group_num_active g) st"
  let ?es = "groups_f f"
  let ?es1 = "case x of None \<Rightarrow> ?es | Some c \<Rightarrow> ?es[n := (fst (?es ! n), ?cnt c)]"
  have nlt: "n < length ?es" using Cons.prems by simp
  obtain f1 where
    step: "update_group pm st (n, x) (Some f) = (Inr (), Some f1)"
    and f1: "stored f1 = stored f" "n_restraints f1 = n_restraints f" "collections_f f1 = collections_f f"
            "groups_f f1 = ?es1"
    using nlt by (cases x) (auto simp: update_group_def with_force_Some modifyGroupNumActive_def Let_def)
  have len1: "Suc n + length xs \<le> length (groups_f f1)"
    using Cons.prems f1(4) by (cases x) simp_all
  from Cons.IH[OF len1]
  obtain f' where
    loop: "for_loop (enumerate (Suc n) xs) (update_group pm st) (Some f1) = (Inr (), Some f')"
    and f': "stored f' = stored f1" "n_restraints f' = n_restraints f1" "collections_f f' = collections_f f1"
            "groups_f f' = take (Suc n) (groups_f f1)
                 @ refreshed ?cnt xs (drop (Suc n) (groups_f f1))
                 @ drop (Suc n + length xs) (groups_f f1)"
    by auto
  have dr: "drop (Suc n + length xs) ?es1 = drop (n + length (x # xs)) ?es"
    by (cases x) (simp_all add: drop_update_cancel)
  have "groups_f f' = take n ?es @ refreshed ?cnt (x # xs) (drop n ?es) @ drop (n + length (x # xs)) ?es"
    unfolding f'(4) f1(4) dr using refreshed_step[OF nlt, of ?cnt x xs] by simp
  moreover have "for_loop (enumerate n (x # xs)) (update_group pm st) (Some f) = (Inr (), Some f')"
    by (simp add: step loop)
  ultimately show ?case
    using f1 f' by auto
qed

lemma update_groups_collections_ok:
  assumes "length (groups_f f) = length (groups tr)" and "length (collections_f f) = length (collections tr)"
  shows "\<exists>f'. update_groups_collections pm tr st (Some f) = (Inr (), Some f')
           \<and> stored f' = stored f \<and> n_restraints f' = n_restraints f
           \<and> groups_f f' = refreshed (\<lambda>g. handle_num_active pm (group_num_active g) st) (groups tr) (groups_f f)
           \<and> collections_f f'
               = refreshed (\<lambda>c. handle_num_active pm (coll_num_active c) st) (collections tr) (collections_f f)"
proof -
  from collections_loop[of 0 "collections tr" f pm st] assms(2)
  obtain f1 where
    l1: "for_loop (enumerate 0 (collections tr)) (update_collection pm st) (Some f) = (Inr (), Some f1)"
    and f1: "stored f1 = stored f" "n_restraints f1 = n_restraints f" "groups_f f1 = groups_f f"
            "collections_f f1
               = refreshed (\<lambda>c. handle_num_active pm (coll_num_active c) st) (collections tr) (collections_f f)"
    by auto
  from groups_loop[of 0 "groups tr" f1 pm st] assms(1) f1(3)
  obtain f2 where
    l2: "for_loop (enumerate 0 (groups tr)) (update_group pm st) (Some f1) = (Inr (), Some f2)"
    and f2: "stored f2 = stored f1" "n_restraints f2 = n_restraints f1" "collections_f f2 = collections_f f1"
            "groups_f f2 = refreshed (\<lambda>g. handle_num_active pm (group_num_active g) st) (groups tr) (groups_f f1)"
    by auto
  have "update_groups_collections pm tr st (Some f) = (Inr (), Some f2)"
    by (simp add: update_groups_collections_def seq_def l1 l2)
  then show ?thesis
    using f1 f2 by simp
qed

lemma length_refreshed: "length (refreshed cnt ts es) = min (length ts) (length es)"
  by (simp add: refreshed_def)

section \<open>Entries tracked as \<open>None\<close> are passed over\<close>

lemma for_loop_invariant:
  assumes "P s" and "\<And>x s. x \<in> set xs \<Longrightarrow> P s \<Longrightarrow> P (snd (body x s))"
  shows "P (snd (for_loop xs body s))"
  using assms
proof (induction xs arbitrary: s)
  case Nil
  then show ?case by simp
next
  case (Cons x xs)
  have 1: "P (snd (body x s))" using Cons.prems by simp
  show ?case
  proof (cases "body x s")
    case (Pair r s1)
    with 1 have p1: "P s1" by simp
    show ?thesis
    proof (cases r)
      case (Inl e)
      with Pair p1 show ?thesis by simp
    next
      case (Inr u)
      have "P (snd (for_loop xs body s1))"
        using p1 Cons.prems(2) by (intro Cons.IH) simp_all
      with Pair Inr show ?thesis by simp
    qed
  qed
qed

lemma seq_invariant:
  assumes "P s" and "\<And>s. P s \<Longrightarrow> P (snd (m1 s))" and "\<And>s. P s \<Longrightarrow> P (snd (m2 s))"
  shows "P (snd (seq m1 m2 s))"
proof (cases "m1 s")
  case (Pair r s1)
  then have "P s1" using assms(1,2) by (metis snd_conv)
  then show ?thesis
    using Pair assms(3) by (cases r) (simp_all add: seq_def)
qed

lemma sentinels_kept_refl: "sentinels_kept tr f f"
  by (simp add: sentinels_kept_def list_all_iff)

lemma sentinels_kept_trans:
  assumes "sentinels_kept tr f f'" and "sentinels_kept tr f' f''"
  shows "sentinels_kept tr f f''"
proof -
  from assms(1) obtain c1 where c1: "calls f' = calls f @ c1"
    unfolding sentinels_kept_def by (metis append_take_drop_id)
  from assms(2) obtain c2 where c2: "calls f'' = calls f' @ c2"
    unfolding sentinels_kept_def by (metis append_take_drop_id)
  show ?thesis
    using assms unfolding sentinels_kept_def by (auto simp: c1 c2 list_all_iff)
qed

lemma kept_modify_restraint: "sentinels_kept tr f (snd (modify_restraint K i args f))"
  by (simp add: sentinels_kept_def modify_restraint_def list_all_iff)

lemma kept_updateParameters: "sentinels_kept tr f (updateParametersInContext ctx f)"
  by (simp add: sentinels_kept_def updateParametersInContext_def list_all_iff)

lemma kept_modifyGroup:
  assumes "i \<notin> set (sentinels (groups tr))"
  shows "sentinels_kept tr f (snd (modifyGroupNumActive i n f))"
  using assms by (auto simp: sentinels_kept_def modifyGroupNumActive_def list_all_iff nth_list_update)

lemma kept_modifyCollection:
  assumes "i \<notin> set (sentinels (collections tr))"
  shows "sentinels_kept tr f (snd (modifyCollectionNumActive i n f))"
  using assms by (auto simp: sentinels_kept_def modifyCollectionNumActive_def list_all_iff nth_list_update)

lemma with_force_kept:
  assumes "\<And>f. sentinels_kept tr f (snd (m f))" and "kept_from tr f0 fo"
  shows "kept_from tr f0 (snd (with_force m fo))"
proof -
  from assms(2) obtain f1 where fo: "fo = Some f1" and k: "sentinels_kept tr f0 f1"
    by (auto simp: kept_from_def split: option.splits)
  have "sentinels_kept tr f0 (snd (m f1))"
    using k assms(1) by (rule sentinels_kept_trans)
  then show ?thesis
    by (cases "m f1") (simp add: fo with_force_Some kept_from_def)
qed

lemma kept_update_distance: "kept_from tr f0 fo \<Longrightarrow> kept_from tr f0 (snd (update_distance alpha t x fo))"
  by (cases x) (simp add: update_distance_body with_force_kept kept_modify_restraint)

lemma kept_update_hyperbolic: "kept_from tr f0 fo \<Longrightarrow> kept_from tr f0 (snd (update_hyperbolic alpha t x fo))"
  by (cases x) (simp add: update_hyperbolic_body with_force_kept kept_modify_restraint)

lemma kept_update_torsion: "kept_from tr f0 fo \<Longrightarrow> kept_from tr f0 (snd (update_torsion alpha t x fo))"
  by (cases x) (simp add: update_torsion_body with_force_kept kept_modify_restraint)

lemma kept_update_dist_prof:
  assumes "kept_from tr f0 fo"
  shows "kept_from tr f0 (snd (update_dist_prof alpha t x fo))"
proof (cases x)
  case (Pair i r)
  show ?thesis
    unfolding Pair update_dist_prof_def Let_def prod.case
    by (rule with_force_kept[OF _ assms])
       (simp add: sentinels_kept_refl modifyDistProfileRestraint_def kept_modify_restraint split: sum.splits)
qed

lemma kept_update_tors_prof:
  assumes "kept_from tr f0 fo"
  shows "kept_from tr f0 (snd (update_tors_prof alpha t x fo))"
proof (cases x)
  case (Pair i r)
  show ?thesis
    unfolding Pair update_tors_prof_def Let_def prod.case
    by (rule with_force_kept[OF _ assms])
       (simp add: sentinels_kept_refl modifyTorsProfileRestraint_def kept_modify_restraint split: sum.splits)
qed

lemma kept_update_gmm:
  assumes "kept_from tr f0 fo"
  shows "kept_from tr f0 (snd (update_gmm alpha t x fo))"
proof (cases x)
  case (Pair i r)
  show ?thesis
  proof (cases "setup_precisions (gmm_precisions r) (gmm_n_distances r) (gmm_n_components r)")
    case (Inl e)
    then show ?thesis using assms by (simp add: Pair update_gmm_def Let_def)
  next
    case (Inr p)
    then show ?thesis
      using with_force_kept[OF _ assms, of "modifyGMMRestraint _ _ _ _ _ _ _ _ _"]
      by (cases p) (simp add: Pair update_gmm_def Let_def modifyGMMRestraint_def kept_modify_restraint with_force_kept[OF _ assms])
  qed
qed

lemma kept_update_restraints:
  assumes "kept_from tr f0 fo"
  shows "kept_from tr f0 (snd (update_restraints tr' alpha t fo))"
  unfolding update_restraints_def
  by (intro seq_invariant[where P = "kept_from tr f0"] for_loop_invariant[where P = "kept_from tr f0"]
            assms kept_update_distance kept_update_hyperbolic kept_update_torsion kept_update_dist_prof
            kept_update_tors_prof kept_update_gmm)

lemma enumerate_Some_not_sentinel:
  assumes "(i, Some c) \<in> set (enumerate 0 ts)"
  shows "i \<notin> set (sentinels ts)"
  using assms by (auto simp: sentinels_def in_set_enumerate_eq)

lemma kept_update_collection:
  assumes "x \<in> set (enumerate 0 (collections tr))" and "kept_from tr f0 fo"
  shows "kept_from tr f0 (snd (update_collection pm st x fo))"
proof (cases x)
  case (Pair i c)
  show ?thesis
  proof (cases c)
    case None
    then show ?thesis using assms(2) by (simp add: Pair update_collection_def)
  next
    case (Some a)
    with assms(1) Pair have "i \<notin> set (sentinels (collections tr))"
      by (auto dest: enumerate_Some_not_sentinel)
    then show ?thesis
      by (simp add: Pair Some update_collection_def Let_def with_force_kept[OF _ assms(2)] kept_modifyCollection)
  qed
qed

lemma kept_update_group:
  assumes "x \<in> set (enumerate 0 (groups tr))" and "kept_from tr f0 fo"
  shows "kept_from tr f0 (snd (update_group pm st x fo))"
proof (cases x)
  case (Pair i c)
  show ?thesis
  proof (cases c)
    case None
    then show ?thesis using assms(2) by (simp add: Pair update_group_def)
  next
    case (Some a)
    with assms(1) Pair have "i \<notin> set (sentinels (groups tr))"
      by (auto dest: enumerate_Some_not_sentinel)
    then show ?thesis
      by (simp add: Pair Some update_group_def Let_def with_force_kept[OF _ assms(2)] kept_modifyGroup)
  qed
qed

lemma kept_update_groups_collections:
  assumes "kept_from tr f0 fo"
  shows "kept_from tr f0 (snd (update_groups_collections pm tr st fo))"
  unfolding update_groups_collections_def
  by (intro seq_invariant[where P = "kept_from tr f0"] for_loop_invariant[where P = "kept_from tr f0"]
            assms kept_update_collection kept_update_group)

lemma update_kept:
  assumes "force self = Some f"
  shows "\<exists>f'. snd (update self st sim alpha t) = self\<lparr>force := Some f'\<rparr> \<and> sentinels_kept (tracker self) f f'"
proof (cases "active self")
  case False
  then have "snd (update self st sim alpha t) = self\<lparr>force := Some f\<rparr>"
    using assms by (simp add: update_def)
  then show ?thesis using sentinels_kept_refl by blast
next
  case True
  let ?tr = "tracker self"
  let ?m = "seq (update_restraints ?tr alpha t)
              (seq (update_groups_collections (param_manager self) ?tr st)
                   (with_force (\<lambda>f. (Inr (), updateParametersInContext (sim_context sim) f))))"
  have k0: "kept_from ?tr f (force self)"
    by (simp add: assms kept_from_def sentinels_kept_refl)
  have "kept_from ?tr f (snd (?m (force self)))"
    by (intro seq_invariant[where P = "kept_from ?tr f"] k0 kept_update_restraints
              kept_update_groups_collections with_force_kept)
       (simp_all add: kept_updateParameters)
  then obtain f' where "snd (?m (force self)) = Some f'" and "sentinels_kept ?tr f f'"
    by (auto simp: kept_from_def split: option.splits)
  then show ?thesis
    using True by (auto simp: update_def split: prod.splits)
qed

lemma updates_kept:
  assumes "force self = Some f"
  shows "\<exists>f'. updates self steps = self\<lparr>force := Some f'\<rparr> \<and> sentinels_kept (tracker self) f f'"
  using assms
proof (induction steps arbitrary: self f)
  case Nil
  then have "updates self [] = self\<lparr>force := Some f\<rparr>" by simp
  then show ?case using sentinels_kept_refl by blast
next
  case (Cons step steps)
  obtain st sim alpha t where step: "step = (st, sim, alpha, t)"
    by (cases step) auto
  from update_kept[OF Cons.prems, of st sim alpha t]
  obtain f1 where u: "snd (update self st sim alpha t) = self\<lparr>force := Some f1\<rparr>"
    and k1: "sentinels_kept (tracker self) f f1"
    by auto
  from Cons.IH[of "self\<lparr>force := Some f1\<rparr>" f1]
  obtain f2 where us: "updates (self\<lparr>force := Some f1\<rparr>) steps = self\<lparr>force := Some f1\<rparr>\<lparr>force := Some f2\<rparr>"
    and k2: "sentinels_kept (tracker self) f1 f2"
    by auto
  have "updates self (step # steps) = self\<lparr>force := Some f2\<rparr>"
    by (simp add: step u us)
  moreover have "sentinels_kept (tracker self) f f2"
    using k1 k2 by (rule sentinels_kept_trans)
  ultimately show ?case by blast
qed

section \<open>Registration followed by updates\<close>

lemma in_step_restraints:
  "in_step tr f \<Longrightarrow>
     list_all (\<lambda>K. length (stored f K) = length (tracked tr K) \<and> list_all well_shaped (tracked tr K)) all_kinds"
  by (simp add: in_step_def)

lemma update_ok:
  assumes "active self" and "force self = Some f" and "in_step (tracker self) f"
  shows "\<exists>f'. update self st sim alpha t = (Inr (), self\<lparr>force := Some f'\<rparr>)
           \<and> list_all (\<lambda>K. stored f' K = map (\<lambda>r. spec_params r alpha t) (tracked (tracker self) K)) all_kinds
           \<and> n_restraints f' = n_restraints f
           \<and> groups_f f' = refreshed (\<lambda>g. handle_num_active (param_manager self) (group_num_active g) st)
                              (groups (tracker self)) (groups_f f)
           \<and> collections_f f' = refreshed (\<lambda>c. handle_num_active (param_manager self) (coll_num_active c) st)
                                   (collections (tracker self)) (collections_f f)
           \<and> in_step (tracker self) f'"
proof -
  let ?tr = "tracker self" and ?pm = "param_manager self"
  from update_restraints_ok[OF in_step_restraints[OF assms(3)], of alpha t]
  obtain f1 where
    u1: "update_restraints ?tr alpha t (Some f) = (Inr (), Some f1)"
    and s1: "list_all (\<lambda>K. stored f1 K = map (\<lambda>r. spec_params r alpha t) (tracked ?tr K)) all_kinds"
    and o1: "n_restraints f1 = n_restraints f" "groups_f f1 = groups_f f" "collections_f f1 = collections_f f"
    by auto
  have lg: "length (groups_f f1) = length (groups ?tr)" and lc: "length (collections_f f1) = length (collections ?tr)"
    using assms(3) o1 by (simp_all add: in_step_def)
  from update_groups_collections_ok[OF lg lc, of ?pm st]
  obtain f2 where
    u2: "update_groups_collections ?pm ?tr st (Some f1) = (Inr (), Some f2)"
    and o2: "stored f2 = stored f1" "n_restraints f2 = n_restraints f1"
            "groups_f f2 = refreshed (\<lambda>g. handle_num_active ?pm (group_num_active g) st) (groups ?tr) (groups_f f1)"
            "collections_f f2 = refreshed (\<lambda>c. handle_num_active ?pm (coll_num_active c) st)
                                  (collections ?tr) (collections_f f1)"
    by auto
  let ?f3 = "updateParametersInContext (sim_context sim) f2"
  have o3: "stored ?f3 = stored f2" "n_restraints ?f3 = n_restraints f2" "groups_f ?f3 = groups_f f2"
           "collections_f ?f3 = collections_f f2"
    by (simp_all add: updateParametersInContext_def)
  have "update self st sim alpha t = (Inr (), self\<lparr>force := Some ?f3\<rparr>)"
    using assms(1,2) by (simp add: update_def seq_def u1 u2 with_force_Some)
  moreover have "list_all (\<lambda>K. stored ?f3 K = map (\<lambda>r. spec_params r alpha t) (tracked ?tr K)) all_kinds"
    using s1 by (simp add: o3 o2)
  moreover have "in_step ?tr ?f3"
    using assms(3) s1 lg lc
    by (simp add: in_step_def o3 o2 length_refreshed all_kinds_def)
  ultimately show ?thesis
    using o1 o2 o3 by auto
qed

lemma updates_in_step:
  assumes "active self" and "force self = Some f" and "in_step (tracker self) f"
  shows "\<exists>f'. updates self steps = self\<lparr>force := Some f'\<rparr> \<and> in_step (tracker self) f'"
  using assms
proof (induction steps arbitrary: self f)
  case Nil
  then have "updates self [] = self\<lparr>force := Some f\<rparr>" by simp
  with Nil show ?case by blast
next
  case (Cons step steps)
  obtain st sim alpha t where step: "step = (st, sim, alpha, t)"
    by (cases step) auto
  from update_ok[OF Cons.prems, of st sim alpha t]
  obtain f1 where u: "update self st sim alpha t = (Inr (), self\<lparr>force := Some f1\<rparr>)"
    and i1: "in_step (tracker self) f1"
    by auto
  from Cons.IH[of "self\<lparr>force := Some f1\<rparr>" f1] Cons.prems(1) i1
  obtain f2 where us: "updates (self\<lparr>force := Some f1\<rparr>) steps = self\<lparr>force := Some f1\<rparr>\<lparr>force := Some f2\<rparr>"
    and i2: "in_step (tracker self) f2"
    by auto
  have "updates self (step # steps) = self\<lparr>force := Some f2\<rparr>"
    by (simp add: step u us)
  with i2 show ?case by blast
qed

lemma length_coll_entries: "length (coll_entries pm st m gv cs) = length cs"
  by (induction cs arbitrary: m gv) simp_all

lemma add_interactions_in_step:
  assumes "active self" and "registrable self" and "tracker self = RestraintTracker"
  shows "\<exists>tr' f'. add_interactions self st sys topo
             = (Inr (sys @ [MeldForceRef]), self\<lparr>tracker := tr', force := Some f'\<rparr>)
           \<and> list_all (\<lambda>K. tracked tr' K = filter (\<lambda>r. spec_kind r = Some K) (registration_order self)
                           \<and> stored f' K = map (\<lambda>r. spec_params r 0 0) (tracked tr' K)) all_kinds
           \<and> n_restraints f' = length (registration_order self)
           \<and> filter is_creation (calls f') = map (\<lambda>r. creation_call r 0 0) (registration_order self)
           \<and> groups tr' = tracker_groups_after self
           \<and> groups_f f' = engine_groups_after self st
           \<and> collections tr' = tracker_collections_after self
           \<and> collections_f f' = engine_collections_after self st
           \<and> in_step tr' f'"
proof -
  from add_interactions_ok[OF assms(1,2), of st sys topo]
  obtain tr' f' where
    a: "add_interactions self st sys topo = (Inr (sys @ [MeldForceRef]), self\<lparr>tracker := tr', force := Some f'\<rparr>)"
    and g: "grows (RestraintTracker, MeldForce) (registration_order self)
              (tracker_groups_after self) (engine_groups_after self st)
              (tracker_collections_after self) (engine_collections_after self st) (tr', f')"
    by (auto simp: assms(3))
  have ws: "list_all well_shaped (registration_order self)"
    using assms(2) by (simp add: registrable_def)
  have obs: "list_all (\<lambda>K. tracked tr' K = filter (\<lambda>r. spec_kind r = Some K) (registration_order self)
                           \<and> stored f' K = map (\<lambda>r. spec_params r 0 0) (tracked tr' K)) all_kinds"
       "n_restraints f' = length (registration_order self)"
       "filter is_creation (calls f') = map (\<lambda>r. creation_call r 0 0) (registration_order self)"
       "groups tr' = tracker_groups_after self"
       "groups_f f' = engine_groups_after self st"
       "collections tr' = tracker_collections_after self"
       "collections_f f' = engine_collections_after self st"
    using g by (simp_all add: grows_def all_kinds_def RestraintTracker_def MeldForce_def)
  have per: "tracked tr' K = filter (\<lambda>r. spec_kind r = Some K) (registration_order self)
             \<and> stored f' K = map (\<lambda>r. spec_params r 0 0) (tracked tr' K)" if "K \<in> set all_kinds" for K
    using obs(1) that unfolding list_all_iff by blast
  have k: "length (stored f' K) = length (tracked tr' K) \<and> list_all well_shaped (tracked tr' K)"
    if "K \<in> set all_kinds" for K
  proof -
    have "length (stored f' K) = length (tracked tr' K)"
      using per[OF that] by (metis length_map)
    moreover have "list_all well_shaped (tracked tr' K)"
      using per[OF that] ws by (simp add: list_all_iff)
    ultimately show ?thesis by simp
  qed
  have lg: "length (groups_f f') = length (groups tr')"
    by (simp add: obs tracker_groups_after_def engine_groups_after_def length_group_entries)
  have lc: "length (collections_f f') = length (collections tr')"
    by (simp add: obs tracker_collections_after_def engine_collections_after_def length_coll_entries)
  have "in_step tr' f'"
    unfolding in_step_def list_all_iff using k lg lc by (simp add: list_all_iff)
  with a obs show ?thesis by blast
qed

section \<open>A raise in \<open>add_interactions\<close> reaches the caller\<close>

lemma for_loop_success:
  "for_loop xs body s = (Inr u, s') \<Longrightarrow> \<forall>x\<in>set xs. \<exists>s1 s2. body x s1 = (Inr (), s2)"
proof (induction xs arbitrary: s)
  case Nil
  then show ?case by simp
next
  case (Cons x xs)
  obtain r s1 where b: "body x s = (r, s1)" by (cases "body x s")
  show ?case
  proof (cases r)
    case (Inl e)
    with b Cons.prems show ?thesis by simp
  next
    case (Inr v)
    with b Cons.prems have "for_loop xs body s1 = (Inr u, s')" by simp
    from Cons.IH[OF this] b Inr show ?thesis by auto
  qed
qed

lemma add_meld_restraint_success_known:
  "add_meld_restraint rest alpha t (tr, f) = (Inr i, s') \<Longrightarrow> spec_kind rest \<noteq> None"
  by (cases rest) (simp_all add: add_meld_restraint_other)

lemma group_restraints_body_known:
  assumes "group_restraints_body rest s1 = (Inr (), s2)"
  shows "spec_kind rest \<noteq> None"
proof -
  obtain tr f idx where s1: "s1 = (tr, f, idx)" by (cases s1) auto
  obtain r s' where a: "add_meld_restraint rest 0 0 (tr, f) = (r, s')"
    by (cases "add_meld_restraint rest 0 0 (tr, f)")
  from assms obtain i where "r = Inr i"
    by (cases r) (auto simp: group_restraints_body_def s1 a split: prod.splits)
  with a show ?thesis by (auto dest: add_meld_restraint_success_known)
qed

lemma always_on_body_known:
  assumes "always_on_body rest s1 = (Inr (), s2)"
  shows "spec_kind rest \<noteq> None"
proof -
  obtain tr f idx where s1: "s1 = (tr, f, idx)" by (cases s1) auto
  obtain r s' where a: "add_meld_restraint rest 0 0 (tr, f) = (r, s')"
    by (cases "add_meld_restraint rest 0 0 (tr, f)")
  from assms obtain i where "r = Inr i"
    by (cases r) (auto simp: always_on_body_def s1 a split: prod.splits)
  with a show ?thesis by (auto dest: add_meld_restraint_success_known)
qed

lemma coll_groups_body_known:
  assumes "coll_groups_body pm st g s1 = (Inr (), s2)"
  shows "\<forall>r\<in>set (group_restraints g). spec_kind r \<noteq> None"
proof -
  obtain tr f idx gv where s1: "s1 = (tr, f, idx, gv)" by (cases s1) auto
  obtain r s' where l: "for_loop (group_restraints g) group_restraints_body (tr, f, []) = (r, s')"
    by (cases "for_loop (group_restraints g) group_restraints_body (tr, f, [])")
  from assms have "r = Inr ()"
    by (cases r) (auto simp: coll_groups_body_def s1 l split: prod.splits)
  with l for_loop_success[of "group_restraints g" group_restraints_body "(tr, f, [])" "()" s']
  show ?thesis by (auto dest: group_restraints_body_known)
qed

lemma selective_on_body_known:
  assumes "selective_on_body pm st c s1 = (Inr (), s2)"
  shows "\<forall>g\<in>set (coll_groups c). \<forall>r\<in>set (group_restraints g). spec_kind r \<noteq> None"
proof -
  obtain tr f gv where s1: "s1 = (tr, f, gv)" by (cases s1) auto
  obtain r s' where l: "for_loop (coll_groups c) (coll_groups_body pm st) (tr, f, [], gv) = (r, s')"
    by (cases "for_loop (coll_groups c) (coll_groups_body pm st) (tr, f, [], gv)")
  from assms have "r = Inr ()"
    by (cases r) (auto simp: selective_on_body_def s1 l split: prod.splits)
  with l for_loop_success[of "coll_groups c" "coll_groups_body pm st" "(tr, f, [], gv)" "()" s']
  show ?thesis by (auto dest: coll_groups_body_known)
qed

lemma add_always_on_known:
  assumes "add_always_on rs s1 = (Inr (), s2)"
  shows "\<forall>r\<in>set rs. spec_kind r \<noteq> None"
proof (cases "rs = []")
  case True
  then show ?thesis by simp
next
  case False
  obtain tr f where s1: "s1 = (tr, f)" by (cases s1) auto
  obtain r s' where l: "for_loop rs always_on_body (tr, f, []) = (r, s')"
    by (cases "for_loop rs always_on_body (tr, f, [])")
  from assms False have "r = Inr ()"
    by (cases r) (auto simp: add_always_on_def s1 l split: prod.splits)
  with l for_loop_success[of rs always_on_body "(tr, f, [])" "()" s']
  show ?thesis by (auto dest: always_on_body_known)
qed

lemma add_interactions_success_known:
  assumes "active self" and "add_interactions self st sys topo = (Inr sys', self')"
  shows "\<forall>r\<in>set (registration_order self). spec_kind r \<noteq> None"
proof -
  obtain r1 s1 where a1: "add_always_on (always_on self) (tracker self, MeldForce) = (r1, s1)"
    by (cases "add_always_on (always_on self) (tracker self, MeldForce)")
  from assms have r1: "r1 = Inr ()"
    by (cases r1) (auto simp: add_interactions_def a1 split: prod.splits)
  obtain tr1 f1 where s1: "s1 = (tr1, f1)" by (cases s1) auto
  obtain r2 s2 where a2: "for_loop (selective_on self) (selective_on_body (param_manager self) st) (tr1, f1, None) = (r2, s2)"
    by (cases "for_loop (selective_on self) (selective_on_body (param_manager self) st) (tr1, f1, None)")
  from assms have r2: "r2 = Inr ()"
    by (cases r2) (auto simp: add_interactions_def a1 r1 s1 a2 split: prod.splits)
  have k1: "\<forall>r\<in>set (always_on self). spec_kind r \<noteq> None"
    using a1 r1 by (auto dest: add_always_on_known)
  have k2: "\<forall>c\<in>set (selective_on self). \<forall>g\<in>set (coll_groups c). \<forall>r\<in>set (group_restraints g). spec_kind r \<noteq> None"
  proof -
    have "\<forall>c\<in>set (selective_on self). \<exists>s1 s2. selective_on_body (param_manager self) st c s1 = (Inr (), s2)"
      using a2 r2 by (intro for_loop_success[where s = "(tr1, f1, None)" and s' = s2 and u = "()"]) simp
    then show ?thesis
      using selective_on_body_known by blast
  qed
  show ?thesis
    using k1 k2 by (auto simp: registration_order_def all_groups_def)
qed

lemma add_interactions_error_keeps_force:
  assumes "add_interactions self st sys topo = (Inl e, self')"
  shows "force self' = force self \<and> always_on self' = always_on self \<and> selective_on self' = selective_on self"
  using assms
  by (auto simp: add_interactions_def Let_def split: if_splits prod.splits sum.splits)

section \<open>Unknown restraint kinds\<close>

lemma add_meld_restraint_known_error:
  assumes "spec_kind rest \<noteq> None"
  shows "fst (add_meld_restraint rest alpha t (tr, f)) \<noteq> Inl RuntimeError"
proof (cases rest)
  case (DistanceRestraint r)
  then show ?thesis by (simp add: add_Distance)
next
  case (HyperbolicDistanceRestraint r)
  then show ?thesis by (simp add: add_Hyperbolic)
next
  case (TorsionRestraint r)
  then show ?thesis by (simp add: add_Torsion)
next
  case (DistProfileRestraint r)
  show ?thesis
  proof (cases "columns (dist_prof_spline_params r) [0, 1, 2, 3]")
    case (Inl e)
    then have "e = IndexError" by (rule columns_error)
    with Inl show ?thesis
      unfolding DistProfileRestraint
      by (simp only: add_meld_restraint_def Let_def prod.case restraint.case sum.case) simp
  next
    case (Inr cols)
    then show ?thesis
      unfolding DistProfileRestraint
      by (simp only: add_meld_restraint_def Let_def prod.case restraint.case sum.case)
         (simp add: split_def)
  qed
next
  case (TorsProfileRestraint r)
  show ?thesis
  proof (cases "columns (tors_prof_spline_params r) [0, 1, 2, 3, 4, 5, 6, 7, 8, 9, 10, 11, 12, 13, 14, 15]")
    case (Inl e)
    then have "e = IndexError" by (rule columns_error)
    with Inl show ?thesis
      unfolding TorsProfileRestraint
      by (simp only: add_meld_restraint_def Let_def prod.case restraint.case sum.case) simp
  next
    case (Inr cols)
    then show ?thesis
      unfolding TorsProfileRestraint
      by (simp only: add_meld_restraint_def Let_def prod.case restraint.case sum.case)
         (simp add: split_def)
  qed
next
  case (GMMDistanceRestraint r)
  show ?thesis
  proof (cases "setup_precisions (gmm_precisions r) (gmm_n_distances r) (gmm_n_components r)")
    case (Inl e)
    then have "e = IndexError" by (rule setup_precisions_error)
    with Inl show ?thesis
      unfolding GMMDistanceRestraint
      by (simp only: add_meld_restraint_def Let_def prod.case restraint.case sum.case) simp
  next
    case (Inr p)
    then show ?thesis
      unfolding GMMDistanceRestraint
      by (simp only: add_meld_restraint_def Let_def prod.case restraint.case sum.case)
         (simp add: split_def)
  qed
next
  case (OtherRestraint r)
  with assms show ?thesis by simp
qed

text \<open>
  C8. Registering a restraint that is of none of the six kinds raises the fatal error at
  once and leaves the tracker and the force as they were: no creation call, no append.
  A restraint of a known kind never raises this error. The error is not retried: when
  \<open>add_interactions\<close> meets such a restraint it ends with an error and attaches no force.
\<close>

theorem unknown_kind_is_fatal:
  "add_meld_restraint (OtherRestraint r) alpha timestep (tr, f) = (Inl RuntimeError, tr, f)
   \<and> (fst (add_meld_restraint rest alpha timestep (tr, f)) = Inl RuntimeError \<longleftrightarrow> spec_kind rest = None)
   \<and> (active self \<and> OtherRestraint r \<in> set (registration_order self)
        \<longrightarrow> (\<exists>e self'. add_interactions self st sys topo = (Inl e, self') \<and> force self' = force self))"
proof (intro conjI impI)
  show "add_meld_restraint (OtherRestraint r) alpha timestep (tr, f) = (Inl RuntimeError, tr, f)"
    by (rule add_meld_restraint_other)
next
  show "fst (add_meld_restraint rest alpha timestep (tr, f)) = Inl RuntimeError \<longleftrightarrow> spec_kind rest = None"
  proof
    assume "fst (add_meld_restraint rest alpha timestep (tr, f)) = Inl RuntimeError"
    then show "spec_kind rest = None"
      using add_meld_restraint_known_error[of rest alpha timestep tr f] by blast
  next
    assume "spec_kind rest = None"
    then obtain r' where "rest = OtherRestraint r'" by (cases rest) simp_all
    then show "fst (add_meld_restraint rest alpha timestep (tr, f)) = Inl RuntimeError"
      by (simp add: add_meld_restraint_other)
  qed
next
  assume a: "active self \<and> OtherRestraint r \<in> set (registration_order self)"
  obtain res self' where res: "add_interactions self st sys topo = (res, self')"
    by (cases "add_interactions self st sys topo")
  show "\<exists>e self'. add_interactions self st sys topo = (Inl e, self') \<and> force self' = force self"
  proof (cases res)
    case (Inl e)
    with res add_interactions_error_keeps_force[of self st sys topo e self'] show ?thesis by simp
  next
    case (Inr sys')
    with res a add_interactions_success_known[of self st sys topo sys' self']
    have "spec_kind (OtherRestraint r) \<noteq> None" by blast
    then show ?thesis by simp
  qed
qed

lemma ex_unknown_eq:
  "ex_unknown =
     \<lparr>param_manager = ex_manager, tracker = RestraintTracker,
      always_on = [DistanceRestraint ex_distance,
                   OtherRestraint \<lparr>other_scaler = (\<lambda>alpha. 1), other_ramp = (\<lambda>t. 1)\<rparr>],
      selective_on = [], active = True, force = None\<rparr>"
  by (simp add: ex_unknown_def MeldRestraintTransformer_def Let_def)

text \<open>
  A distance restraint followed by a restraint of an unknown class: the first is
  registered, the second raises, and no force is attached.
\<close>

theorem unknown_kind_is_fatal_witness:
  "active ex_unknown
   \<and> OtherRestraint \<lparr>other_scaler = (\<lambda>alpha. 1), other_ramp = (\<lambda>t. 1)\<rparr> \<in> set (registration_order ex_unknown)
   \<and> fst (add_interactions ex_unknown ex_state [] ()) = Inl RuntimeError
   \<and> force (snd (add_interactions ex_unknown ex_state [] ())) = None
   \<and> distance_restraints (tracker (snd (add_interactions ex_unknown ex_state [] ()))) = [ex_distance]"
proof -
  have a: "active ex_unknown"
    and m: "OtherRestraint \<lparr>other_scaler = (\<lambda>alpha. 1), other_ramp = (\<lambda>t. 1)\<rparr> \<in> set (registration_order ex_unknown)"
    and n: "force ex_unknown = None"
    by (simp_all add: ex_unknown_eq registration_order_def all_groups_def)
  have run: "add_interactions ex_unknown ex_state [] ()
               = (Inl RuntimeError,
                  ex_unknown\<lparr>tracker := RestraintTracker\<lparr>distance_restraints := [ex_distance], groups := [None]\<rparr>\<rparr>)"
    by (simp add: ex_unknown_eq add_interactions_def add_always_on_def always_on_body_def
          add_Distance add_meld_restraint_other addGroup_def Let_def RestraintTracker_def)
  from unknown_kind_is_fatal[of "\<lparr>other_scaler = (\<lambda>alpha. 1), other_ramp = (\<lambda>t. 1)\<rparr>" 0 0 RestraintTracker MeldForce
                                "DistanceRestraint ex_distance" ex_unknown ex_state "[]" "()"] a m
  obtain e self' where "add_interactions ex_unknown ex_state [] () = (Inl e, self')" "force self' = force ex_unknown"
    by blast
  with a m n run show ?thesis
    by (simp add: RestraintTracker_def)
qed

section \<open>Scale composition\<close>



section \<open>The inactive transformer\<close>

lemma no_selectable_concat:
  assumes "list_all (\<lambda>r. case r of Selectable _ \<Rightarrow> False | NonSelectable _ \<Rightarrow> True) xs"
  shows "concat (map (\<lambda>r. case r of Selectable s \<Rightarrow> [s] | NonSelectable _ \<Rightarrow> []) xs) = []"
  using assms by (induction xs) (auto split: any_restraint.splits)

text \<open>
  C6. A transformer constructed from an always-active input without any selectable
  restraint and an empty selective input is inactive and has no force; it leaves both
  input lists as they are. \<open>add_interactions\<close> returns the system it was given and
  \<open>update\<close> returns at once, and both leave the transformer as it is, so the same holds
  at every later call.
\<close>

theorem inactive_transformer_is_noop:
  assumes "list_all (\<lambda>r. case r of Selectable _ \<Rightarrow> False | NonSelectable _ \<Rightarrow> True) always_active"
    and "MeldRestraintTransformer pm options always_active [] = (self, always_left, selective_left)"
  shows "\<not> active self \<and> force self = None \<and> tracker self = RestraintTracker
         \<and> always_left = always_active \<and> selective_left = []
         \<and> add_interactions self state system topology = (Inr system, self)
         \<and> update self state' sim alpha timestep = (Inr (), self)
         \<and> updates self steps = self"
proof -
  have self: "self = \<lparr>param_manager = pm, tracker = RestraintTracker, always_on = [], selective_on = [],
                      active = False, force = None\<rparr>"
    and left: "always_left = always_active" "selective_left = []"
    using assms(2) no_selectable_concat[OF assms(1)]
    by (simp_all add: MeldRestraintTransformer_def Let_def delete_from_always_active_def)
  have na: "\<not> active self" by (simp add: self)
  have u: "update self st sm a t = (Inr (), self)" for st sm a t
    using na by (simp add: update_def)
  have us: "updates self steps = self"
    by (induction steps) (auto simp: u)
  show ?thesis
    using na u us left by (simp add: add_interactions_def) (simp add: self)
qed

text \<open>Two restraints of other classes, no collection, a system that holds another force.\<close>

theorem inactive_transformer_is_noop_witness:
  "add_interactions (fst (MeldRestraintTransformer ex_manager () [NonSelectable 7, NonSelectable 8] []))
       ex_state [OtherForce 3] ()
     = (Inr [OtherForce 3], fst (MeldRestraintTransformer ex_manager () [NonSelectable 7, NonSelectable 8] []))
   \<and> update (fst (MeldRestraintTransformer ex_manager () [NonSelectable 7, NonSelectable 8] []))
        ex_state \<lparr>sim_context = 0\<rparr> (1 / 2) 10
     = (Inr (), fst (MeldRestraintTransformer ex_manager () [NonSelectable 7, NonSelectable 8] []))
   \<and> force (fst (MeldRestraintTransformer ex_manager () [NonSelectable 7, NonSelectable 8] [])) = None"
proof -
  have h: "list_all (\<lambda>r. case r of Selectable _ \<Rightarrow> False | NonSelectable _ \<Rightarrow> True)
             [NonSelectable 7, NonSelectable 8]"
    by simp
  obtain self l1 l2 where c: "MeldRestraintTransformer ex_manager () [NonSelectable 7, NonSelectable 8] [] = (self, l1, l2)"
    by (cases "MeldRestraintTransformer ex_manager () [NonSelectable 7, NonSelectable 8] []")
  from inactive_transformer_is_noop[OF h c, of ex_state "[OtherForce 3]" "()" ex_state "\<lparr>sim_context = 0\<rparr>" "1 / 2" 10 "[]"]
  show ?thesis by (simp add: c)
qed

section \<open>Creation and update calls carry the same parameter list\<close>

lemma tracked_track:
  "tracked (track rest tr) K = tracked tr K @ (if spec_kind rest = Some K then [rest] else [])"
  by (cases rest; cases K) simp_all

lemma stored_register:
  assumes "spec_kind rest \<noteq> None"
  shows "stored (register rest a t f) K
           = stored f K @ (if spec_kind rest = Some K then [spec_params rest a t] else [])"
  using assms by (auto simp: register_def add_restraint_def)

lemma in_step_register:
  assumes "well_shaped rest" and "in_step tr f"
  shows "in_step (track rest tr) (register rest a t f)"
proof -
  have k: "spec_kind rest \<noteq> None" using assms(1) by (cases rest) simp_all
  have g: "groups (track rest tr) = groups tr" "collections (track rest tr) = collections tr"
    by (cases rest; simp)+
  have e: "groups_f (register rest a t f) = groups_f f" "collections_f (register rest a t f) = collections_f f"
    by (simp_all add: register_def add_restraint_def)
  show ?thesis
    using assms unfolding in_step_def list_all_iff
    by (auto simp: tracked_track stored_register[OF k] g e)
qed

lemma refresh_calls_snoc:
  "refresh_calls K (rs @ [r]) alpha t
     = refresh_calls K rs alpha t @ [Call (Modify K) (VInt (int (length rs)) # spec_params r alpha t)]"
  by (simp add: refresh_calls_def enumerate_append_eq)

lemma length_spec_params: "length (spec_params rest alpha t) = length (spec_params rest alpha' t')"
  by (cases rest) simp_all

text \<open>
  C7. Take any well-shaped restraint (of one of the six kinds) and register it at
  (alpha0, t0) with a tracker and a force that are in step. The creation call carries the
  parameter list of its kind at (alpha0, t0). It is tracked last in the sequence of its
  kind, and the next pass of \<open>_update_restraints\<close> at (alpha, t) issues for it one update
  call: its position in that sequence, followed by the parameter list of the same kind at
  (alpha, t), of the same length and in the same order, which the engine stores at
  that position.
\<close>

theorem refresh_matches_register:
  assumes "well_shaped rest" and "in_step tr f"
  shows "\<exists>K f1 f2.
           spec_kind rest = Some K
         \<and> add_meld_restraint rest alpha0 t0 (tr, f) = (Inr (n_restraints f), track rest tr, f1)
         \<and> calls f1 = calls f @ [Call (Add K) (spec_params rest alpha0 t0)]
         \<and> tracked (track rest tr) K = tracked tr K @ [rest]
         \<and> update_restraints (track rest tr) alpha t (Some f1) = (Inr (), Some f2)
         \<and> calls f2 = calls f1 @ concat (map (\<lambda>K'. refresh_calls K' (tracked (track rest tr) K') alpha t) all_kinds)
         \<and> refresh_calls K (tracked (track rest tr) K) alpha t
             = refresh_calls K (tracked tr K) alpha t
               @ [Call (Modify K) (VInt (int (length (tracked tr K))) # spec_params rest alpha t)]
         \<and> stored f2 K ! length (tracked tr K) = spec_params rest alpha t
         \<and> length (spec_params rest alpha t) = length (spec_params rest alpha0 t0)"
proof -
  obtain K where K: "spec_kind rest = Some K"
    using assms(1) by (cases rest) simp_all
  let ?tr1 = "track rest tr" and ?f1 = "register rest alpha0 t0 f"
  have reg: "add_meld_restraint rest alpha0 t0 (tr, f) = (Inr (n_restraints f), ?tr1, ?f1)"
    using assms(1) by (rule add_meld_restraint_ok)
  have c1: "calls ?f1 = calls f @ [Call (Add K) (spec_params rest alpha0 t0)]"
    by (simp add: register_def add_restraint_def K)
  have t1: "tracked ?tr1 K = tracked tr K @ [rest]"
    by (simp add: tracked_track K)
  have i1: "in_step ?tr1 ?f1"
    using assms by (rule in_step_register)
  from update_restraints_ok[OF in_step_restraints[OF i1], of alpha t]
  obtain f2 where
    u: "update_restraints ?tr1 alpha t (Some ?f1) = (Inr (), Some f2)"
    and s2: "list_all (\<lambda>K. stored f2 K = map (\<lambda>r. spec_params r alpha t) (tracked ?tr1 K)) all_kinds"
    and c2: "calls f2 = calls ?f1 @ concat (map (\<lambda>K'. refresh_calls K' (tracked ?tr1 K') alpha t) all_kinds)"
    by auto
  have "K \<in> set all_kinds"
    by (cases K) (simp_all add: all_kinds_def)
  with s2 have "stored f2 K = map (\<lambda>r. spec_params r alpha t) (tracked ?tr1 K)"
    by (simp add: list_all_iff)
  then have n: "stored f2 K ! length (tracked tr K) = spec_params rest alpha t"
    by (simp add: t1 nth_append)
  have rc: "refresh_calls K (tracked ?tr1 K) alpha t
              = refresh_calls K (tracked tr K) alpha t
                @ [Call (Modify K) (VInt (int (length (tracked tr K))) # spec_params rest alpha t)]"
    unfolding t1 by (rule refresh_calls_snoc)
  show ?thesis
    using K reg c1 t1 u c2 rc n length_spec_params[of rest alpha t alpha0 t0] by blast
qed

lemma in_step_empty: "in_step RestraintTracker MeldForce"
  by (simp add: in_step_def all_kinds_def RestraintTracker_def MeldForce_def)

text \<open>
  The distance restraint of the small system, registered at (0, 0) and refreshed at
  (1, 50): seven parameters in the creation call, the index and the same seven slots in
  the update call.
\<close>

theorem refresh_matches_register_witness:
  "well_shaped (DistanceRestraint ex_distance) \<and> in_step RestraintTracker MeldForce
   \<and> calls (snd (snd (add_meld_restraint (DistanceRestraint ex_distance) 0 0 (RestraintTracker, MeldForce))))
       = [Call (Add Distance) [VInt 0, VInt 1, VFloat 0, VFloat 0, VFloat 3, VFloat 4, VFloat 0]]
   \<and> calls (the (snd (update_restraints (track (DistanceRestraint ex_distance) RestraintTracker) 1 50
        (Some (snd (snd (add_meld_restraint (DistanceRestraint ex_distance) 0 0 (RestraintTracker, MeldForce))))))))
       = [Call (Add Distance) [VInt 0, VInt 1, VFloat 0, VFloat 0, VFloat 3, VFloat 4, VFloat 0],
          Call (Modify Distance) [VInt 0, VInt 0, VInt 1, VFloat 0, VFloat 1, VFloat 2, VFloat 4, VFloat (5 / 2)]]"
proof -
  have w: "well_shaped (DistanceRestraint ex_distance)" by simp
  have p0: "spec_params (DistanceRestraint ex_distance) 0 0
              = [VInt 0, VInt 1, VFloat 0, VFloat 0, VFloat 3, VFloat 4, VFloat 0]"
    and p1: "spec_params (DistanceRestraint ex_distance) 1 50
              = [VInt 0, VInt 1, VFloat 0, VFloat 1, VFloat 2, VFloat 4, VFloat (5 / 2)]"
    by (simp_all add: ex_distance_def)
  have c0: "calls MeldForce = []" by (simp add: MeldForce_def)
  have rc: "concat (map (\<lambda>K'. refresh_calls K' (tracked (track (DistanceRestraint ex_distance) RestraintTracker) K') 1 50)
                     all_kinds)
              = [Call (Modify Distance) (VInt 0 # spec_params (DistanceRestraint ex_distance) 1 50)]"
    by (simp add: all_kinds_def refresh_calls_def RestraintTracker_def)
  from refresh_matches_register[OF w in_step_empty, of 0 0 1 50]
  obtain f1 f2 where
    A: "add_meld_restraint (DistanceRestraint ex_distance) 0 0 (RestraintTracker, MeldForce)
       = (Inr (n_restraints MeldForce), track (DistanceRestraint ex_distance) RestraintTracker, f1)" and
    B: "calls f1 = calls MeldForce @ [Call (Add Distance) (spec_params (DistanceRestraint ex_distance) 0 0)]" and
    C: "update_restraints (track (DistanceRestraint ex_distance) RestraintTracker) 1 50 (Some f1) = (Inr (), Some f2)" and
    D: "calls f2 = calls f1 @ concat (map (\<lambda>K'. refresh_calls K' (tracked (track (DistanceRestraint ex_distance) RestraintTracker) K') 1 50) all_kinds)"
    by auto
  have f1c: "calls f1 = [Call (Add Distance) [VInt 0, VInt 1, VFloat 0, VFloat 0, VFloat 3, VFloat 4, VFloat 0]]"
    unfolding B c0 p0 by simp
  have f2c: "calls f2 = [Call (Add Distance) [VInt 0, VInt 1, VFloat 0, VFloat 0, VFloat 3, VFloat 4, VFloat 0],
                         Call (Modify Distance) [VInt 0, VInt 0, VInt 1, VFloat 0, VFloat 1, VFloat 2, VFloat 4, VFloat (5 / 2)]]"
    unfolding D rc f1c p1 by simp
  show ?thesis
    unfolding A C snd_conv option.sel f1c f2c
    using w in_step_empty by simp
qed

lemma ex_transformer_eq:
  "ex_transformer =
     \<lparr>param_manager = ex_manager, tracker = RestraintTracker,
      always_on = [DistanceRestraint ex_distance], selective_on = [ex_collection],
      active = True, force = None\<rparr>"
  by (simp add: ex_transformer_def MeldRestraintTransformer_def Let_def)

lemma ex_registered_eq:
  "add_interactions ex_transformer ex_state [] () = (Inr [MeldForceRef], ex_registered)"
  unfolding ex_registered_def
  by (simp add: ex_transformer_eq add_interactions_def add_always_on_def always_on_body_def
      add_meld_restraint_def ex_collection_def ex_group1_def ex_group2_def
      selective_on_body_def coll_groups_body_def group_restraints_body_def Let_def
      addGroup_def addCollection_def addDistanceRestraint_def addTorsionRestraint_def add_restraint_def
      MeldForce_def RestraintTracker_def)

lemma ex_registered_fields:
  "force ex_registered = Some ex_force"
  "active ex_registered"
  "param_manager ex_registered = ex_manager"
  "groups (tracker ex_registered) = [None, Some ex_group1, Some ex_group2]"
  "collections (tracker ex_registered) = [None, Some ex_collection]"
  "distance_restraints (tracker ex_registered) = [ex_distance]"
  "torsion_restraints (tracker ex_registered) = [ex_torsion 2, ex_torsion 6, ex_torsion 10]"
  unfolding ex_force_def ex_registered_def
  by (simp_all add: ex_transformer_eq add_interactions_def add_always_on_def always_on_body_def
      add_meld_restraint_def ex_collection_def ex_group1_def ex_group2_def
      selective_on_body_def coll_groups_body_def group_restraints_body_def Let_def
      addGroup_def addCollection_def addDistanceRestraint_def addTorsionRestraint_def add_restraint_def
      MeldForce_def RestraintTracker_def)

lemma ex_force_fields:
  "groups_f ex_force = [([0], 1), ([1], 1), ([2, 3], 2)]"
  "collections_f ex_force = [([0], 1), ([1, 2], 2)]"
  "n_restraints ex_force = 4"
  "length (stored ex_force Distance) = 1"
  "length (stored ex_force Torsion) = 3"
  "stored ex_force HyperbolicDistance = []"
  "stored ex_force DistProfile = []"
  "stored ex_force TorsProfile = []"
  "stored ex_force GMM = []"
  unfolding ex_force_def ex_registered_def
  by (simp_all add: ex_transformer_eq add_interactions_def add_always_on_def always_on_body_def
      add_meld_restraint_def ex_collection_def ex_group1_def ex_group2_def
      selective_on_body_def coll_groups_body_def group_restraints_body_def Let_def
      addGroup_def addCollection_def addDistanceRestraint_def addTorsionRestraint_def add_restraint_def
      MeldForce_def RestraintTracker_def)

section \<open>The small system\<close>

lemma ex_tracker_empty_kinds:
  "hyperbolic_distance_restraints (tracker ex_registered) = []"
  "dist_prof_restraints (tracker ex_registered) = []"
  "torsion_profile_restraints (tracker ex_registered) = []"
  "gmm_restraints (tracker ex_registered) = []"
  unfolding ex_force_def ex_registered_def
  by (simp_all add: ex_transformer_eq add_interactions_def add_always_on_def always_on_body_def
      add_meld_restraint_def ex_collection_def ex_group1_def ex_group2_def
      selective_on_body_def coll_groups_body_def group_restraints_body_def Let_def
      addGroup_def addCollection_def addDistanceRestraint_def addTorsionRestraint_def add_restraint_def
      MeldForce_def RestraintTracker_def)

lemma ex_in_step: "in_step (tracker ex_registered) ex_force"
  by (simp add: in_step_def all_kinds_def ex_registered_fields ex_force_fields ex_tracker_empty_kinds)

text \<open>
  C1. In the small system the collection asks for one active group and its last group
  asks for two active restraints. \<open>add_interactions\<close> creates the collection with the
  count 2, resolved from the variable \<open>group\<close> left over from the loop over the groups,
  and not with the collection's own count 1. The next \<open>update\<close> resolves the
  collection's own selector and pushes 1.
\<close>

theorem collection_created_with_count_of_last_group:
  "add_interactions ex_transformer ex_state [] () = (Inr [MeldForceRef], ex_registered)
   \<and> force ex_registered = Some ex_force
   \<and> collections (tracker ex_registered) ! 1 = Some ex_collection
   \<and> handle_num_active ex_manager (coll_num_active ex_collection) ex_state = 1
   \<and> handle_num_active ex_manager (group_num_active (last (coll_groups ex_collection))) ex_state = 2
   \<and> collections_f ex_force ! 1 = ([1, 2], 2)
   \<and> fst (update ex_registered ex_state \<lparr>sim_context = 0\<rparr> (1 / 2) 10) = Inr ()
   \<and> collections_f (the (force (snd (update ex_registered ex_state \<lparr>sim_context = 0\<rparr> (1 / 2) 10)))) ! 1
       = ([1, 2], 1)"
proof -
  from update_ok[OF ex_registered_fields(2) ex_registered_fields(1) ex_in_step,
                 of ex_state "\<lparr>sim_context = 0\<rparr>" "1 / 2" 10]
  obtain f' where
    u: "update ex_registered ex_state \<lparr>sim_context = 0\<rparr> (1 / 2) 10 = (Inr (), ex_registered\<lparr>force := Some f'\<rparr>)"
    and c: "collections_f f' = refreshed (\<lambda>c. handle_num_active (param_manager ex_registered) (coll_num_active c) ex_state)
                                 (collections (tracker ex_registered)) (collections_f ex_force)"
    by auto
  have "collections_f f' ! 1 = ([1, 2], 1)"
    unfolding c by (simp add: ex_registered_fields ex_force_fields ex_collection_def)
  then show ?thesis
    by (simp add: u ex_registered_eq ex_registered_fields ex_force_fields)
       (simp add: ex_collection_def ex_group2_def)
qed

text \<open>
  C5. From any transformer that has a force, through any number of update steps
  (whether or not one of them raised): the tracker is not changed, the engine only
  receives further calls, no call \<open>modifyGroupNumActive\<close> addresses a group that the
  tracker holds as \<open>None\<close>, no call \<open>modifyCollectionNumActive\<close> addresses a collection
  that it holds as \<open>None\<close>, and the engine's entry of each of these, its count
  included, is what it was before.
\<close>

theorem sentinels_never_updated:
  assumes "force self = Some f"
  shows "\<exists>f' new_calls.
           updates self steps = self\<lparr>force := Some f'\<rparr>
         \<and> calls f' = calls f @ new_calls
         \<and> (\<forall>i<length (groups (tracker self)). groups (tracker self) ! i = None \<longrightarrow>
               (\<forall>c\<in>set new_calls. \<not> addresses ModifyGroupNumActive i c) \<and> groups_f f' ! i = groups_f f ! i)
         \<and> (\<forall>i<length (collections (tracker self)). collections (tracker self) ! i = None \<longrightarrow>
               (\<forall>c\<in>set new_calls. \<not> addresses ModifyCollectionNumActive i c)
               \<and> collections_f f' ! i = collections_f f ! i)"
proof -
  from updates_kept[OF assms, of steps]
  obtain f' where u: "updates self steps = self\<lparr>force := Some f'\<rparr>"
    and k: "sentinels_kept (tracker self) f f'"
    by auto
  let ?new = "drop (length (calls f)) (calls f')"
  have c: "calls f' = calls f @ ?new"
    using k unfolding sentinels_kept_def by (metis append_take_drop_id)
  have g: "(\<forall>c\<in>set ?new. \<not> addresses ModifyGroupNumActive i c) \<and> groups_f f' ! i = groups_f f ! i"
    if "i < length (groups (tracker self))" "groups (tracker self) ! i = None" for i
  proof -
    have "i \<in> set (sentinels (groups (tracker self)))"
      using that by (simp add: sentinels_def)
    with k show ?thesis
      unfolding sentinels_kept_def list_all_iff by blast
  qed
  have d: "(\<forall>c\<in>set ?new. \<not> addresses ModifyCollectionNumActive i c) \<and> collections_f f' ! i = collections_f f ! i"
    if "i < length (collections (tracker self))" "collections (tracker self) ! i = None" for i
  proof -
    have "i \<in> set (sentinels (collections (tracker self)))"
      using that by (simp add: sentinels_def)
    with k show ?thesis
      unfolding sentinels_kept_def list_all_iff by blast
  qed
  show ?thesis
    using u c g d by blast
qed

text \<open>
  The small system after registration and two update steps: the group and the
  collection that wrap the always-active restraint are tracked as \<open>None\<close> and still hold
  one member with count 1.
\<close>

theorem sentinels_never_updated_witness:
  "force ex_registered = Some ex_force
   \<and> groups (tracker ex_registered) ! 0 = None
   \<and> collections (tracker ex_registered) ! 0 = None
   \<and> groups_f (the (force (updates ex_registered
        [(ex_state, \<lparr>sim_context = 0\<rparr>, 1 / 2, 10), (ex_state, \<lparr>sim_context = 0\<rparr>, 1, 20)]))) ! 0 = ([0], 1)
   \<and> collections_f (the (force (updates ex_registered
        [(ex_state, \<lparr>sim_context = 0\<rparr>, 1 / 2, 10), (ex_state, \<lparr>sim_context = 0\<rparr>, 1, 20)]))) ! 0 = ([0], 1)"
proof -
  let ?steps = "[(ex_state, \<lparr>sim_context = 0\<rparr>, 1 / 2, 10), (ex_state, \<lparr>sim_context = 0\<rparr>, 1, 20)]"
  from sentinels_never_updated[OF ex_registered_fields(1), of ?steps]
  obtain f' where
    u: "updates ex_registered ?steps = ex_registered\<lparr>force := Some f'\<rparr>"
    and g: "\<forall>i<length (groups (tracker ex_registered)). groups (tracker ex_registered) ! i = None \<longrightarrow>
              groups_f f' ! i = groups_f ex_force ! i"
    and c: "\<forall>i<length (collections (tracker ex_registered)). collections (tracker ex_registered) ! i = None \<longrightarrow>
              collections_f f' ! i = collections_f ex_force ! i"
    by blast
  from g have "groups_f f' ! 0 = ([0], 1)"
    by (simp add: ex_registered_fields ex_force_fields)
  moreover from c have "collections_f f' ! 0 = ([0], 1)"
    by (simp add: ex_registered_fields ex_force_fields)
  ultimately show ?thesis
    unfolding u by (simp add: ex_registered_fields)
qed

section \<open>Order preservation and registration at zero\<close>

lemma constructor_fresh:
  assumes "MeldRestraintTransformer pm options always_active selective = (self, always_left, selective_left)"
  shows "tracker self = RestraintTracker \<and> force self = None \<and> param_manager self = pm"
  using assms by (auto simp: MeldRestraintTransformer_def Let_def)

text \<open>
  C9. Take a transformer as the constructor returns it, active and registrable.
  \<open>add_interactions\<close> returns, and afterwards, for every restraint kind, the tracker's
  sequence is the restraints of that kind in the order they were met, and entry i of the
  engine for that kind holds the parameters created for entry i of that sequence; the
  creation calls were issued in that order, one per restraint. The group and collection
  sequences of the tracker and of the engine are the same entries position by
  position. No update step changes the tracker, and an update at (alpha, t) after any
  number of steps returns and leaves, at entry i of each kind, the parameters of entry i
  of the tracker's sequence at (alpha, t), and at each group and collection tracked at
  position i the count resolved for the entity tracked there.
\<close>

theorem tracker_order_is_engine_order:
  assumes "MeldRestraintTransformer pm options always_active selective = (self, always_left, selective_left)"
    and "active self" and "registrable self"
  shows "\<exists>self1 f1 f2 f3.
           add_interactions self st sys topo = (Inr (sys @ [MeldForceRef]), self1)
         \<and> force self1 = Some f1
         \<and> list_all (\<lambda>K. tracked (tracker self1) K = filter (\<lambda>r. spec_kind r = Some K) (registration_order self)
                         \<and> stored f1 K = map (\<lambda>r. spec_params r 0 0) (tracked (tracker self1) K)) all_kinds
         \<and> filter is_creation (calls f1) = map (\<lambda>r. creation_call r 0 0) (registration_order self)
         \<and> groups (tracker self1) = tracker_groups_after self
         \<and> groups_f f1 = engine_groups_after self st
         \<and> collections (tracker self1) = tracker_collections_after self
         \<and> collections_f f1 = engine_collections_after self st
         \<and> updates self1 steps = self1\<lparr>force := Some f2\<rparr>
         \<and> update (updates self1 steps) st' sim alpha t = (Inr (), self1\<lparr>force := Some f3\<rparr>)
         \<and> list_all (\<lambda>K. stored f3 K = map (\<lambda>r. spec_params r alpha t) (tracked (tracker self1) K)) all_kinds
         \<and> groups_f f3 = refreshed (\<lambda>g. handle_num_active pm (group_num_active g) st')
                            (groups (tracker self1)) (groups_f f2)
         \<and> collections_f f3 = refreshed (\<lambda>c. handle_num_active pm (coll_num_active c) st')
                                 (collections (tracker self1)) (collections_f f2)"
proof -
  have fresh: "tracker self = RestraintTracker" and pm: "param_manager self = pm"
    using constructor_fresh[OF assms(1)] by simp_all
  from add_interactions_in_step[OF assms(2,3) fresh, of st sys topo]
  obtain tr1 f1 where
    a: "add_interactions self st sys topo = (Inr (sys @ [MeldForceRef]), self\<lparr>tracker := tr1, force := Some f1\<rparr>)"
    and o: "list_all (\<lambda>K. tracked tr1 K = filter (\<lambda>r. spec_kind r = Some K) (registration_order self)
                           \<and> stored f1 K = map (\<lambda>r. spec_params r 0 0) (tracked tr1 K)) all_kinds"
           "filter is_creation (calls f1) = map (\<lambda>r. creation_call r 0 0) (registration_order self)"
           "groups tr1 = tracker_groups_after self"
           "groups_f f1 = engine_groups_after self st"
           "collections tr1 = tracker_collections_after self"
           "collections_f f1 = engine_collections_after self st"
    and i1: "in_step tr1 f1"
    by blast
  let ?s1 = "self\<lparr>tracker := tr1, force := Some f1\<rparr>"
  have s1: "active ?s1" "force ?s1 = Some f1" "tracker ?s1 = tr1" "param_manager ?s1 = pm"
    using assms(2) pm by simp_all
  from updates_in_step[of ?s1 f1 steps] s1 i1
  obtain f2 where us: "updates ?s1 steps = ?s1\<lparr>force := Some f2\<rparr>" and i2: "in_step tr1 f2"
    by auto
  let ?s2 = "?s1\<lparr>force := Some f2\<rparr>"
  have s2: "active ?s2" "force ?s2 = Some f2" "in_step (tracker ?s2) f2"
    using assms(2) i2 by simp_all
  from update_ok[OF s2, of st' sim alpha t]
  obtain f3 where
    u: "update ?s2 st' sim alpha t = (Inr (), ?s2\<lparr>force := Some f3\<rparr>)"
    and o3: "list_all (\<lambda>K. stored f3 K = map (\<lambda>r. spec_params r alpha t) (tracked tr1 K)) all_kinds"
            "groups_f f3 = refreshed (\<lambda>g. handle_num_active pm (group_num_active g) st') (groups tr1) (groups_f f2)"
            "collections_f f3 = refreshed (\<lambda>c. handle_num_active pm (coll_num_active c) st')
                                  (collections tr1) (collections_f f2)"
    by (auto simp: pm)
  have u': "update (updates ?s1 steps) st' sim alpha t = (Inr (), ?s1\<lparr>force := Some f3\<rparr>)"
    unfolding us u by simp
  show ?thesis
    apply (rule exI[of _ ?s1], rule exI[of _ f1], rule exI[of _ f2], rule exI[of _ f3])
    using a o us u' o3 by simp
qed

text \<open>
  C10. Take a transformer as the constructor returns it, active and registrable.
  \<open>add_interactions\<close> issues one creation call per restraint, always-active or
  selective, with the parameter list of its kind at alpha = 0 and timestep = 0, so the
  scale is \<open>scaler(0) * ramp(0)\<close> and the bounds of a distance restraint are taken at 0.
  The parameters the engine then holds are the same for any state, system and topology
  passed in. The first \<open>update\<close> at (alpha, t) replaces them by the parameter lists at
  (alpha, t).
\<close>

theorem registration_at_alpha_zero_timestep_zero:
  assumes "MeldRestraintTransformer pm options always_active selective = (self, always_left, selective_left)"
    and "active self" and "registrable self"
  shows "\<exists>self1 f1 f2.
           add_interactions self st sys topo = (Inr (sys @ [MeldForceRef]), self1)
         \<and> force self1 = Some f1
         \<and> filter is_creation (calls f1) = map (\<lambda>r. creation_call r 0 0) (registration_order self)
         \<and> list_all (\<lambda>K. stored f1 K
                           = map (\<lambda>r. spec_params r 0 0)
                               (filter (\<lambda>r. spec_kind r = Some K) (registration_order self))) all_kinds
         \<and> list_all (\<lambda>K. stored (the (force (snd (add_interactions self st2 sys2 topo2)))) K = stored f1 K)
                     all_kinds
         \<and> update self1 st' sim alpha t = (Inr (), self1\<lparr>force := Some f2\<rparr>)
         \<and> list_all (\<lambda>K. stored f2 K
                           = map (\<lambda>r. spec_params r alpha t)
                               (filter (\<lambda>r. spec_kind r = Some K) (registration_order self))) all_kinds"
proof -
  have fresh: "tracker self = RestraintTracker"
    using constructor_fresh[OF assms(1)] by simp
  from add_interactions_in_step[OF assms(2,3) fresh, of st sys topo]
  obtain tr1 f1 where
    a: "add_interactions self st sys topo = (Inr (sys @ [MeldForceRef]), self\<lparr>tracker := tr1, force := Some f1\<rparr>)"
    and o: "list_all (\<lambda>K. tracked tr1 K = filter (\<lambda>r. spec_kind r = Some K) (registration_order self)
                           \<and> stored f1 K = map (\<lambda>r. spec_params r 0 0) (tracked tr1 K)) all_kinds"
    and cc: "filter is_creation (calls f1) = map (\<lambda>r. creation_call r 0 0) (registration_order self)"
    and i1: "in_step tr1 f1"
    by blast
  from add_interactions_in_step[OF assms(2,3) fresh, of st2 sys2 topo2]
  obtain tr1' f1' where
    a': "add_interactions self st2 sys2 topo2 = (Inr (sys2 @ [MeldForceRef]), self\<lparr>tracker := tr1', force := Some f1'\<rparr>)"
    and o': "list_all (\<lambda>K. tracked tr1' K = filter (\<lambda>r. spec_kind r = Some K) (registration_order self)
                           \<and> stored f1' K = map (\<lambda>r. spec_params r 0 0) (tracked tr1' K)) all_kinds"
    by blast
  let ?s1 = "self\<lparr>tracker := tr1, force := Some f1\<rparr>"
  have s1: "active ?s1" "force ?s1 = Some f1" "in_step (tracker ?s1) f1"
    using assms(2) i1 by simp_all
  from update_ok[OF s1, of st' sim alpha t]
  obtain f2 where
    u: "update ?s1 st' sim alpha t = (Inr (), ?s1\<lparr>force := Some f2\<rparr>)"
    and o2: "list_all (\<lambda>K. stored f2 K = map (\<lambda>r. spec_params r alpha t) (tracked tr1 K)) all_kinds"
    by auto
  have p1: "list_all (\<lambda>K. stored f1 K = map (\<lambda>r. spec_params r 0 0)
                               (filter (\<lambda>r. spec_kind r = Some K) (registration_order self))) all_kinds"
    using o unfolding list_all_iff by simp
  have p1': "list_all (\<lambda>K. stored f1' K = stored f1 K) all_kinds"
    using o o' unfolding list_all_iff by simp
  have p2: "list_all (\<lambda>K. stored f2 K = map (\<lambda>r. spec_params r alpha t)
                               (filter (\<lambda>r. spec_kind r = Some K) (registration_order self))) all_kinds"
    using o o2 unfolding list_all_iff by simp
  have p1'': "list_all (\<lambda>K. stored (the (force (snd (add_interactions self st2 sys2 topo2)))) K = stored f1 K)
                all_kinds"
    unfolding a' using p1' by simp
  show ?thesis
    apply (rule exI[of _ ?s1], rule exI[of _ f1], rule exI[of _ f2])
    using a cc p1 p1'' p2 u by simp
qed

lemma ex_constructed:
  "MeldRestraintTransformer ex_manager ()
     [Selectable (DistanceRestraint ex_distance), NonSelectable 7] [ex_collection]
     = (ex_transformer, [NonSelectable 7], [])"
  by (simp add: ex_transformer_def MeldRestraintTransformer_def Let_def delete_from_always_active_def)

lemma ex_active: "active ex_transformer"
  by (simp add: ex_transformer_eq)

lemma ex_registrable: "registrable ex_transformer"
  by (simp add: registrable_def registration_order_def all_groups_def ex_transformer_eq
                ex_collection_def ex_group1_def ex_group2_def group_after_def)

text \<open>
  The small system: three torsion restraints tracked and created in the order of their
  groups, three groups of which the first is the wrapper of the distance restraint, and
  after two update steps the second torsion entry of the engine holds the parameters of
  the second tracked torsion restraint.
\<close>

theorem tracker_order_is_engine_order_witness:
  "active ex_transformer \<and> registrable ex_transformer
   \<and> add_interactions ex_transformer ex_state [] () = (Inr [MeldForceRef], ex_registered)
   \<and> map tors_atom_index_1 (torsion_restraints (tracker ex_registered)) = [2, 6, 10]
   \<and> map hd (stored ex_force Torsion) = [VInt 2, VInt 6, VInt 10]
   \<and> groups (tracker ex_registered) = [None, Some ex_group1, Some ex_group2]
   \<and> groups_f ex_force = [([0], 1), ([1], 1), ([2, 3], 2)]
   \<and> fst (update (updates ex_registered [(ex_state, \<lparr>sim_context = 0\<rparr>, 1 / 2, 10)])
             ex_state \<lparr>sim_context = 0\<rparr> 1 20) = Inr ()
   \<and> stored (the (force (snd (update (updates ex_registered [(ex_state, \<lparr>sim_context = 0\<rparr>, 1 / 2, 10)])
                                  ex_state \<lparr>sim_context = 0\<rparr> 1 20)))) Torsion ! 1
       = [VInt 6, VInt 7, VInt 8, VInt 9, VFloat 60, VFloat 15, VFloat 5]"
proof -
  let ?steps = "[(ex_state, \<lparr>sim_context = 0\<rparr>, 1 / 2, 10)]"
  from tracker_order_is_engine_order[OF ex_constructed ex_active ex_registrable,
         of ex_state "[]" "()" ?steps ex_state "\<lparr>sim_context = 0\<rparr>" 1 20]
  obtain self1 f1 f2 f3 where
    A: "add_interactions ex_transformer ex_state [] () = (Inr ([] @ [MeldForceRef]), self1)" and
    F: "force self1 = Some f1" and
    L: "list_all (\<lambda>K. tracked (tracker self1) K = filter (\<lambda>r. spec_kind r = Some K) (registration_order ex_transformer)
                      \<and> stored f1 K = map (\<lambda>r. spec_params r 0 0) (tracked (tracker self1) K)) all_kinds" and
    U: "update (updates self1 ?steps) ex_state \<lparr>sim_context = 0\<rparr> 1 20 = (Inr (), self1\<lparr>force := Some f3\<rparr>)" and
    S: "list_all (\<lambda>K. stored f3 K = map (\<lambda>r. spec_params r 1 20) (tracked (tracker self1) K)) all_kinds"
    by blast
  have e: "self1 = ex_registered"
    using A ex_registered_eq by simp
  have e1: "f1 = ex_force"
    using F e by (simp add: ex_registered_fields)
  have t: "map hd (stored ex_force Torsion) = [VInt 2, VInt 6, VInt 10]"
    using L unfolding e e1 by (simp add: all_kinds_def ex_registered_fields ex_torsion_def)
  have s: "stored f3 Torsion ! 1 = [VInt 6, VInt 7, VInt 8, VInt 9, VFloat 60, VFloat 15, VFloat 5]"
    using S unfolding e by (simp add: all_kinds_def ex_registered_fields ex_torsion_def)
  show ?thesis
    unfolding U[unfolded e]
    using ex_active ex_registrable ex_registered_eq t s
    by (simp add: ex_registered_fields ex_force_fields ex_torsion_def)
qed

text \<open>
  The distance restraint of the small system is created with force constant
  10 * scaler(0) * ramp(0) = 0 and bounds 0, 0, 3, 4, whatever the state; the update at
  (1, 50) pushes 5/2 and the bounds 0, 1, 2, 4.
\<close>

theorem registration_at_alpha_zero_timestep_zero_witness:
  "active ex_transformer \<and> registrable ex_transformer
   \<and> stored ex_force Distance = [[VInt 0, VInt 1, VFloat 0, VFloat 0, VFloat 3, VFloat 4, VFloat 0]]
   \<and> stored (the (force (snd (add_interactions ex_transformer \<lparr>parameters = [7]\<rparr> [OtherForce 1] ())))) Distance
       = stored ex_force Distance
   \<and> stored (the (force (snd (update ex_registered ex_state \<lparr>sim_context = 0\<rparr> 1 50)))) Distance
       = [[VInt 0, VInt 1, VFloat 0, VFloat 1, VFloat 2, VFloat 4, VFloat (5 / 2)]]"
proof -
  from registration_at_alpha_zero_timestep_zero[OF ex_constructed ex_active ex_registrable,
         of ex_state "[]" "()" "\<lparr>parameters = [7]\<rparr>" "[OtherForce 1]" "()" ex_state "\<lparr>sim_context = 0\<rparr>" 1 50]
  obtain self1 f1 f2 where
    A: "add_interactions ex_transformer ex_state [] () = (Inr ([] @ [MeldForceRef]), self1)" and
    F: "force self1 = Some f1" and
    P: "list_all (\<lambda>K. stored f1 K = map (\<lambda>r. spec_params r 0 0)
                     (filter (\<lambda>r. spec_kind r = Some K) (registration_order ex_transformer))) all_kinds" and
    I: "list_all (\<lambda>K. stored (the (force (snd (add_interactions ex_transformer \<lparr>parameters = [7]\<rparr> [OtherForce 1] ())))) K
                     = stored f1 K) all_kinds" and
    U: "update self1 ex_state \<lparr>sim_context = 0\<rparr> 1 50 = (Inr (), self1\<lparr>force := Some f2\<rparr>)" and
    Q: "list_all (\<lambda>K. stored f2 K = map (\<lambda>r. spec_params r 1 50)
                     (filter (\<lambda>r. spec_kind r = Some K) (registration_order ex_transformer))) all_kinds"
    by blast
  have e: "self1 = ex_registered"
    using A ex_registered_eq by simp
  have e1: "f1 = ex_force"
    using F e by (simp add: ex_registered_fields)
  have ro: "filter (\<lambda>r. spec_kind r = Some Distance) (registration_order ex_transformer)
              = [DistanceRestraint ex_distance]"
    by (simp add: registration_order_def all_groups_def ex_transformer_eq ex_collection_def
                  ex_group1_def ex_group2_def)
  have p: "stored ex_force Distance = [[VInt 0, VInt 1, VFloat 0, VFloat 0, VFloat 3, VFloat 4, VFloat 0]]"
    using P unfolding e1 all_kinds_def by (simp add: ro) (simp add: ex_distance_def)
  have i: "stored (the (force (snd (add_interactions ex_transformer \<lparr>parameters = [7]\<rparr> [OtherForce 1] ())))) Distance
             = stored ex_force Distance"
    using I unfolding e1 all_kinds_def by simp
  have q: "stored f2 Distance = [[VInt 0, VInt 1, VFloat 0, VFloat 1, VFloat 2, VFloat 4, VFloat (5 / 2)]]"
    using Q unfolding all_kinds_def by (simp add: ro) (simp add: ex_distance_def)
  show ?thesis
    unfolding U[unfolded e]
    using ex_active ex_registrable p i q by simp
qed

end
